theory Spec2Isabelle
  imports
    Complex_Main
    "HOL-Library.Char_ord"
    "HOL-Library.List_Lexorder"
    "HOL-Library.Multiset"
    "HOL-Library.Sublist"
begin

section \<open>Thrown values (src/errors.ts)\<close>

text \<open>
  The members of \<^verbatim>\<open>ERROR_CODES\<close> that the modelled functions use. The module
  \<^verbatim>\<open>constants.ts\<close> is not part of the sources, so a code is kept as its name.
\<close>

datatype error_code =
  FILE_SYSTEM_ERROR | VALIDATION_ERROR | NETWORK_ERROR | INVALID_CONFIG | UNKNOWN_ERROR

text \<open>
  A value of a context record: \<^verbatim>\<open>getDetailedMessage\<close> prints a string as it is
  and anything else through \<^verbatim>\<open>JSON.stringify\<close>; \<open>CJson\<close> carries that rendering.
\<close>

datatype context_value = CStr string | CJson string

text \<open>
  What a JavaScript \<^verbatim>\<open>throw\<close> can raise: a plain \<^verbatim>\<open>Error\<close> with its message,
  a \<^verbatim>\<open>SkillManagerError\<close> (message, code, context, originalError), or a value that
  is not an \<^verbatim>\<open>Error\<close>, kept as what \<^verbatim>\<open>String(value)\<close> prints.
\<close>

datatype thrown =
    JsError string
  | SkillManagerError string error_code "(string \<times> context_value) list" "thrown option"
  | NonError string

fun message :: "thrown \<Rightarrow> string" where
  "message (JsError m) = m"
| "message (SkillManagerError m c ctx orig) = m"
| "message (NonError s) = s"

fun isSkillManagerError :: "thrown \<Rightarrow> bool" where
  "isSkillManagerError (SkillManagerError m c ctx orig) = True"
| "isSkillManagerError e = False"

text \<open>\<^verbatim>\<open>error instanceof Error ? error : new Error(String(error))\<close>\<close>

fun as_Error :: "thrown \<Rightarrow> thrown" where
  "as_Error (NonError s) = JsError s"
| "as_Error e = e"

definition wrapError ::
  "thrown \<Rightarrow> string \<Rightarrow> error_code \<Rightarrow> (string \<times> context_value) list \<Rightarrow> thrown" where
  "wrapError error msg code ctx = SkillManagerError msg code ctx (Some (as_Error error))"

fun code_of :: "thrown \<Rightarrow> error_code option" where
  "code_of (SkillManagerError m c ctx orig) = Some c"
| "code_of e = None"

fun render_context_value :: "context_value \<Rightarrow> string" where
  "render_context_value (CStr s) = s"
| "render_context_value (CJson s) = s"

fun join :: "string \<Rightarrow> string list \<Rightarrow> string" where
  "join sep [] = []"
| "join sep [x] = x"
| "join sep (x # y # ys) = x @ sep @ join sep (y # ys)"

definition getDetailedMessage ::
  "string \<Rightarrow> (string \<times> context_value) list \<Rightarrow> string" where
  "getDetailedMessage m ctx =
     (if length ctx > 0
      then m @ '' ('' @ join '', '' (map (\<lambda>(k, v). k @ '': '' @ render_context_value v) ctx) @ '')''
      else m)"

section \<open>Retry policy (src/retry.ts)\<close>

text \<open>
  JavaScript numbers are modelled exactly: the attempt counter and \<^verbatim>\<open>maxRetries\<close> as
  integers, the delays as reals (rounding of doubles is not modelled).
\<close>

record retry_config =
  maxRetries :: int
  initialBackoff :: real
  maxBackoff :: real
  backoffMultiplier :: real
  isRetryable :: "thrown \<Rightarrow> bool"

text \<open>The caller's partial \<^verbatim>\<open>RetryConfig\<close>: every field is optional.\<close>

record retry_overrides =
  maxRetries_opt :: "int option"
  initialBackoff_opt :: "real option"
  maxBackoff_opt :: "real option"
  backoffMultiplier_opt :: "real option"
  isRetryable_opt :: "(thrown \<Rightarrow> bool) option"

text \<open>\<^verbatim>\<open>HTTP_CONFIG\<close> of the absent \<^verbatim>\<open>constants.ts\<close>, taken as a parameter.\<close>

record http_config =
  MAX_RETRIES :: int
  INITIAL_BACKOFF :: real
  MAX_BACKOFF :: real

definition str_includes :: "string \<Rightarrow> string \<Rightarrow> bool" where
  "str_includes s sub = sublist sub s"

definition default_isRetryable :: "thrown \<Rightarrow> bool" where
  "default_isRetryable error =
     (let m = message error in
        str_includes m ''ECONNRESET'' \<or> str_includes m ''ETIMEDOUT'' \<or> str_includes m ''EHOSTUNREACH''
      \<or> str_includes m ''ECONNREFUSED'' \<or> str_includes m ''socket hang up''
      \<or> str_includes m ''429'' \<or> str_includes m ''503'' \<or> str_includes m ''502'' \<or> str_includes m ''504'')"

definition DEFAULT_RETRY_CONFIG :: "http_config \<Rightarrow> retry_config" where
  "DEFAULT_RETRY_CONFIG h =
     \<lparr> maxRetries = MAX_RETRIES h, initialBackoff = INITIAL_BACKOFF h,
       maxBackoff = MAX_BACKOFF h, backoffMultiplier = 2,
       isRetryable = default_isRetryable \<rparr>"

text \<open>\<^verbatim>\<open>{ ...DEFAULT_RETRY_CONFIG, ...config }\<close>\<close>

definition merge_config :: "retry_config \<Rightarrow> retry_overrides \<Rightarrow> retry_config" where
  "merge_config d c =
     \<lparr> maxRetries = (case maxRetries_opt c of Some v \<Rightarrow> v | None \<Rightarrow> maxRetries d),
       initialBackoff = (case initialBackoff_opt c of Some v \<Rightarrow> v | None \<Rightarrow> initialBackoff d),
       maxBackoff = (case maxBackoff_opt c of Some v \<Rightarrow> v | None \<Rightarrow> maxBackoff d),
       backoffMultiplier =
         (case backoffMultiplier_opt c of Some v \<Rightarrow> v | None \<Rightarrow> backoffMultiplier d),
       isRetryable = (case isRetryable_opt c of Some v \<Rightarrow> v | None \<Rightarrow> isRetryable d) \<rparr>"

text \<open>
  \<^verbatim>\<open>Math.pow(base, e)\<close> at an integer exponent, and \<^verbatim>\<open>calculateBackoff\<close>.
\<close>

definition Math_pow :: "real \<Rightarrow> int \<Rightarrow> real" where
  "Math_pow b e = (if 0 \<le> e then b ^ nat e else 1 / b ^ nat (- e))"

definition calculateBackoff :: "int \<Rightarrow> retry_config \<Rightarrow> real" where
  "calculateBackoff attempt config =
     (let exponentialDelay = initialBackoff config * Math_pow (backoffMultiplier config) (attempt - 1)
      in min exponentialDelay (maxBackoff config))"

text \<open>Decimal rendering of a number inside a template literal.\<close>

fun digits :: "nat \<Rightarrow> string" where
  "digits n =
     (if n < 10 then [char_of (48 + n)] else digits (n div 10) @ [char_of (48 + n mod 10)])"

definition string_of_int :: "int \<Rightarrow> string" where
  "string_of_int i = (if i < 0 then ''-'' @ digits (nat (- i)) else digits (nat i))"

text \<open>
  The operation is a closure over mutable state: a call takes the state \<open>'s\<close> of its
  world and gives back the outcome (\<open>Inl\<close> what it threw, \<open>Inr\<close> what it resolved to) and
  the new state. A run of \<^verbatim>\<open>withRetry\<close> records how often the operation was called and
  the delays it slept.
\<close>

record 's retry_run =
  world :: 's
  calls :: nat
  slept :: "real list"

function withRetry_loop ::
  "('s \<Rightarrow> (thrown + 'a) \<times> 's) \<Rightarrow> string \<Rightarrow> retry_config \<Rightarrow> int \<Rightarrow> thrown option \<Rightarrow>
   's retry_run \<Rightarrow> (thrown + 'a) \<times> 's retry_run" where
  "withRetry_loop operation operationName finalConfig attempt lastError run =
     (if attempt \<le> maxRetries finalConfig then
        (case operation (world run) of
           (Inr v, w) \<Rightarrow> (Inr v, run\<lparr>world := w, calls := calls run + 1\<rparr>)
         | (Inl error, w) \<Rightarrow>
             (let run1 = run\<lparr>world := w, calls := calls run + 1\<rparr>;
                  lastError1 = as_Error error
              in if attempt \<ge> maxRetries finalConfig \<or> \<not> isRetryable finalConfig lastError1
                 then (Inl error, run1)
                 else
                   (let backoffMs = calculateBackoff attempt finalConfig
                    in withRetry_loop operation operationName finalConfig (attempt + 1)
                         (Some lastError1) (run1\<lparr>slept := slept run1 @ [backoffMs]\<rparr>))))
      else
        (case lastError of
           Some e \<Rightarrow> (Inl e, run)
         | None \<Rightarrow>
             (Inl (JsError (operationName @ '' failed after ''
                     @ string_of_int (maxRetries finalConfig) @ '' retries'')), run)))"
  by pat_completeness auto
termination
  by (relation "measure (\<lambda>(operation, operationName, finalConfig, attempt, lastError, run).
        nat (maxRetries finalConfig + 1 - attempt))") auto

definition withRetry ::
  "retry_config \<Rightarrow> ('s \<Rightarrow> (thrown + 'a) \<times> 's) \<Rightarrow> string \<Rightarrow> retry_overrides \<Rightarrow> 's \<Rightarrow>
   (thrown + 'a) \<times> 's retry_run" where
  "withRetry defaults operation operationName config w =
     withRetry_loop operation operationName (merge_config defaults config) 1 None
       \<lparr>world = w, calls = 0, slept = []\<rparr>"

text \<open>The state of the world after \<open>n\<close> calls of the operation.\<close>

primrec states :: "('s \<Rightarrow> (thrown + 'a) \<times> 's) \<Rightarrow> nat \<Rightarrow> 's \<Rightarrow> 's" where
  "states operation 0 w = w"
| "states operation (Suc n) w = states operation n (snd (operation w))"

section \<open>Paths (src/utils.ts)\<close>

text \<open>
  Node's \<^verbatim>\<open>path\<close> module on POSIX: the separator is \<open>/\<close>. \<^verbatim>\<open>path.resolve\<close> makes a
  path absolute against the working directory, drops empty and \<open>.\<close> segments and lets
  \<open>..\<close> remove the segment before it (nothing at the root); the result has no trailing
  separator, and the root is \<open>/\<close>.
\<close>

definition path_sep :: string where
  "path_sep = ''/''"

fun split_path :: "string \<Rightarrow> string list" where
  "split_path [] = [[]]"
| "split_path (c # cs) =
     (if c = CHR ''/'' then [] # split_path cs
      else (case split_path cs of
              [] \<Rightarrow> [[c]]
            | seg # segs \<Rightarrow> (c # seg) # segs))"

definition normalize_step :: "string list \<Rightarrow> string \<Rightarrow> string list" where
  "normalize_step stack seg =
     (if seg = [] \<or> seg = ''.'' then stack
      else if seg = ''..'' then butlast stack
      else stack @ [seg])"

definition normalize_segments :: "string list \<Rightarrow> string list" where
  "normalize_segments segs = foldl normalize_step [] segs"

fun isAbsolute :: "string \<Rightarrow> bool" where
  "isAbsolute [] = False"
| "isAbsolute (c # cs) = (c = CHR ''/'')"

definition path_resolve :: "string \<Rightarrow> string \<Rightarrow> string" where
  "path_resolve cwd p =
     (let segs = (if isAbsolute p then split_path p else split_path cwd @ split_path p)
      in ''/'' @ join ''/'' (normalize_segments segs))"

text \<open>
  \<^verbatim>\<open>path.normalize\<close> keeps a relative path relative (leading \<open>..\<close> segments stay) and
  keeps one trailing separator; \<^verbatim>\<open>path.join\<close> joins its non-empty arguments with the
  separator and normalizes; \<^verbatim>\<open>path.dirname\<close> cuts the last segment;
  \<^verbatim>\<open>path.relative\<close> resolves both paths and walks from one to the other.
\<close>

definition normalize_relative_step :: "string list \<Rightarrow> string \<Rightarrow> string list" where
  "normalize_relative_step stack seg =
     (if seg = [] \<or> seg = ''.'' then stack
      else if seg = ''..''
      then (if stack = [] \<or> last stack = ''..'' then stack @ [''..''] else butlast stack)
      else stack @ [seg])"

definition path_normalize :: "string \<Rightarrow> string" where
  "path_normalize p =
     (if p = [] then ''.''
      else
        (let absolute = isAbsolute p;
             trailingSeparator = (last p = CHR ''/'');
             segs = (if absolute then normalize_segments (split_path p)
                     else foldl normalize_relative_step [] (split_path p));
             body = join ''/'' segs
         in if body = [] then (if absolute then ''/'' else if trailingSeparator then ''./'' else ''.'')
            else (if absolute then ''/'' else []) @ body @ (if trailingSeparator then ''/'' else [])))"

definition path_join :: "string \<Rightarrow> string \<Rightarrow> string" where
  "path_join a b =
     (let parts = filter (\<lambda>s. s \<noteq> []) [a, b]
      in if parts = [] then ''.'' else path_normalize (join ''/'' parts))"

definition path_dirname :: "string \<Rightarrow> string" where
  "path_dirname p =
     (if p = [] then ''.''
      else
        (let hasRoot = isAbsolute p;
             scanned = dropWhile (\<lambda>c. c \<noteq> CHR ''/'') (dropWhile (\<lambda>c. c = CHR ''/'') (rev (tl p)));
             end = length scanned
         in if scanned = [] then (if hasRoot then ''/'' else ''.'')
            else if hasRoot \<and> end = 1 then ''//''
            else take end p))"

definition resolved_segments :: "string \<Rightarrow> string \<Rightarrow> string list" where
  "resolved_segments cwd p =
     normalize_segments (if isAbsolute p then split_path p else split_path cwd @ split_path p)"

definition path_relative :: "string \<Rightarrow> string \<Rightarrow> string \<Rightarrow> string" where
  "path_relative cwd from to =
     (let fromSegs = resolved_segments cwd from;
          toSegs = resolved_segments cwd to;
          common = length (longest_common_prefix fromSegs toSegs)
      in join ''/'' (replicate (length fromSegs - common) ''..'' @ drop common toSegs))"

text \<open>
  \<^verbatim>\<open>validatePathWithinBase\<close>: \<open>Inl\<close> is the \<^verbatim>\<open>SkillManagerError\<close> it throws. The
  optional message falls back to the default when it is absent or empty
  (\<^verbatim>\<open>errorMessage || '...'\<close>).
\<close>

definition validatePathWithinBase ::
  "string \<Rightarrow> string \<Rightarrow> string \<Rightarrow> string option \<Rightarrow> thrown + unit" where
  "validatePathWithinBase cwd basePath targetPath errorMessage =
     (let resolvedBase = path_resolve cwd basePath;
          resolvedTarget = path_resolve cwd targetPath
      in if \<not> prefix (resolvedBase @ path_sep) resolvedTarget \<and> resolvedTarget \<noteq> resolvedBase
         then Inl (SkillManagerError
                (case errorMessage of
                   None \<Rightarrow> ''Invalid path: resolves outside allowed directory''
                 | Some m \<Rightarrow>
                     if m = [] then ''Invalid path: resolves outside allowed directory'' else m)
                VALIDATION_ERROR
                [(''basePath'', CStr resolvedBase), (''targetPath'', CStr resolvedTarget)]
                None)
         else Inr ())"

text \<open>
  The reading of the specification: a path lies strictly inside a base, at a separator
  boundary, when it is longer than the base, begins with the base, and has the separator
  as its next character.
\<close>

definition strictly_inside :: "string \<Rightarrow> string \<Rightarrow> bool" where
  "strictly_inside base target =
     (length base < length target \<and> take (length base) target = base
      \<and> target ! length base = CHR ''/'')"

text \<open>
  What \<^verbatim>\<open>path.resolve\<close> leaves between the separators: segments that are not empty and
  hold no separator.
\<close>

definition clean_segments :: "string list \<Rightarrow> bool" where
  "clean_segments segs = list_all (\<lambda>s. s \<noteq> [] \<and> CHR ''/'' \<notin> set s) segs"

section \<open>Sync metadata store (src/metadata-manager.ts)\<close>

text \<open>What \<^verbatim>\<open>JSON.parse\<close> returns.\<close>

datatype json =
    JNull
  | JBool bool
  | JNumber real
  | JString string
  | JArray "json list"
  | JObject "(string \<times> json) list"

text \<open>
  Reading a property: \<open>None\<close> is \<^verbatim>\<open>undefined\<close>. On \<^verbatim>\<open>null\<close> the access throws a
  \<^verbatim>\<open>TypeError\<close>; a primitive or an array has none of the metadata fields.
\<close>

fun get_property :: "json \<Rightarrow> string \<Rightarrow> thrown + json option" where
  "get_property JNull k = Inl (JsError (''Cannot read properties of null (reading '' @ k @ '')''))"
| "get_property (JObject kvs) k = Inr (map_of kvs k)"
| "get_property v k = Inr None"

text \<open>JavaScript truthiness, as \<^verbatim>\<open>!value\<close> tests it.\<close>

fun truthy :: "json option \<Rightarrow> bool" where
  "truthy None = False"
| "truthy (Some JNull) = False"
| "truthy (Some (JBool b)) = b"
| "truthy (Some (JNumber n)) = (n \<noteq> 0)"
| "truthy (Some (JString s)) = (s \<noteq> [])"
| "truthy (Some (JArray xs)) = True"
| "truthy (Some (JObject kvs)) = True"

text \<open>
  The two reads of the file system that \<^verbatim>\<open>loadMetadata\<close> makes:
  \<^verbatim>\<open>fs.pathExists\<close> never fails, \<^verbatim>\<open>fs.readFile\<close> may throw.
\<close>

record fs_reader =
  pathExists :: "string \<Rightarrow> bool"
  readFile :: "string \<Rightarrow> thrown + string"

text \<open>
  The body of the \<^verbatim>\<open>try\<close> block of \<^verbatim>\<open>loadMetadata\<close>. \<^verbatim>\<open>METADATA_FILENAME\<close> (of
  the absent \<^verbatim>\<open>constants.ts\<close>) and \<^verbatim>\<open>JSON.parse\<close> are parameters. The four tests
  of the \<^verbatim>\<open>||\<close> chain run left to right and stop at the first falsy field.
\<close>

definition loadMetadata_try ::
  "string \<Rightarrow> fs_reader \<Rightarrow> (string \<Rightarrow> thrown + json) \<Rightarrow> string \<Rightarrow> thrown + json option" where
  "loadMetadata_try METADATA_FILENAME fs JSON_parse skillDir =
     (let metadataPath = path_join skillDir METADATA_FILENAME
      in if \<not> pathExists fs metadataPath then Inr None
         else
           (case readFile fs metadataPath of
              Inl e \<Rightarrow> Inl e
            | Inr content \<Rightarrow>
                (case JSON_parse content of
                   Inl e \<Rightarrow> Inl e
                 | Inr metadata \<Rightarrow>
                     (case get_property metadata ''remote'' of
                        Inl e \<Rightarrow> Inl e
                      | Inr remote \<Rightarrow>
                          if \<not> truthy remote then Inr None
                          else
                            (case get_property metadata ''type'' of
                               Inl e \<Rightarrow> Inl e
                             | Inr type \<Rightarrow>
                                 if \<not> truthy type then Inr None
                                 else
                                   (case get_property metadata ''lastSync'' of
                                      Inl e \<Rightarrow> Inl e
                                    | Inr lastSync \<Rightarrow>
                                        if \<not> truthy lastSync then Inr None
                                        else
                                          (case get_property metadata ''contentHash'' of
                                             Inl e \<Rightarrow> Inl e
                                           | Inr contentHash \<Rightarrow>
                                               if \<not> truthy contentHash then Inr None
                                               else Inr (Some metadata))))))))"

text \<open>\<^verbatim>\<open>loadMetadata\<close>: the \<^verbatim>\<open>catch\<close> turns whatever the body threw into \<^verbatim>\<open>null\<close>.\<close>

definition loadMetadata ::
  "string \<Rightarrow> fs_reader \<Rightarrow> (string \<Rightarrow> thrown + json) \<Rightarrow> string \<Rightarrow> thrown + json option" where
  "loadMetadata METADATA_FILENAME fs JSON_parse skillDir =
     (case loadMetadata_try METADATA_FILENAME fs JSON_parse skillDir of
        Inl error \<Rightarrow> Inr None
      | Inr metadata \<Rightarrow> Inr metadata)"

text \<open>The required fields, and a field that is missing or holds the empty string.\<close>

definition required_fields :: "string list" where
  "required_fields = [''remote'', ''type'', ''lastSync'', ''contentHash'']"

definition missing_or_empty :: "json \<Rightarrow> string \<Rightarrow> bool" where
  "missing_or_empty metadata k =
     (case get_property metadata k of
        Inl e \<Rightarrow> True
      | Inr None \<Rightarrow> True
      | Inr (Some v) \<Rightarrow> v = JString [])"

section \<open>Content hasher (src/metadata-manager.ts)\<close>

text \<open>
  The directory tree that \<^verbatim>\<open>calculateContentHash\<close> walks. A file carries whether it can
  be read and its content, a directory whether it can be listed and its entries in the
  order \<^verbatim>\<open>readdir\<close> gives them. A symbolic link and a special file (socket, device)
  are entries that are neither \<^verbatim>\<open>isDirectory()\<close> nor \<^verbatim>\<open>isFile()\<close>.
\<close>

datatype fs_node =
    File bool string
  | Directory bool "(string \<times> fs_node) list"
  | Symlink string
  | Special

fun isDirectory :: "fs_node \<Rightarrow> bool" where
  "isDirectory (Directory listable entries) = True"
| "isDirectory n = False"

fun isFile :: "fs_node \<Rightarrow> bool" where
  "isFile (File readable content) = True"
| "isFile n = False"

definition startsWith :: "string \<Rightarrow> string \<Rightarrow> bool" where
  "startsWith s p = prefix p s"

text \<open>
  \<^verbatim>\<open>getAllFiles(dir)\<close>, with the node that the file system holds at \<open>dir\<close>. When
  \<^verbatim>\<open>readdir\<close> throws (not a directory, not listable) the \<^verbatim>\<open>catch\<close> logs a warning and
  the empty \<open>files\<close> array is returned. \<open>getAllFiles_entries\<close> is the \<^verbatim>\<open>for\<close> loop over
  the entries.
\<close>

fun getAllFiles :: "fs_node \<Rightarrow> string \<Rightarrow> string list"
  and getAllFiles_entries :: "(string \<times> fs_node) list \<Rightarrow> string \<Rightarrow> string list" where
  "getAllFiles (Directory listable entries) dir =
     (if listable then getAllFiles_entries entries dir else [])"
| "getAllFiles (File readable content) dir = []"
| "getAllFiles (Symlink target) dir = []"
| "getAllFiles Special dir = []"
| "getAllFiles_entries [] dir = []"
| "getAllFiles_entries ((name, entry) # rest) dir =
     (let fullPath = path_join dir name
      in (if isDirectory entry
          then (if \<not> startsWith name ''.'' then getAllFiles entry fullPath else [])
          else if isFile entry then [fullPath]
          else [])
         @ getAllFiles_entries rest dir)"

text \<open>The node a tree holds along a list of entry names.\<close>

fun node_at :: "fs_node \<Rightarrow> string list \<Rightarrow> fs_node option" where
  "node_at n [] = Some n"
| "node_at (Directory listable entries) (name # names) =
     (case map_of entries name of
        None \<Rightarrow> None
      | Some entry \<Rightarrow> node_at entry names)"
| "node_at n (name # names) = None"

text \<open>
  Opening a path for reading, in the tree that the file system holds at
  \<open>skillDir\<close>: the content of a readable file, or the error of the stream.
\<close>

definition createReadStream ::
  "string \<Rightarrow> string \<Rightarrow> fs_node \<Rightarrow> string \<Rightarrow> thrown + string" where
  "createReadStream cwd skillDir tree filePath =
     (let base = resolved_segments cwd skillDir;
          segs = resolved_segments cwd filePath
      in if \<not> prefix base segs then Inl (JsError ''ENOENT: no such file or directory'')
         else
           (case node_at tree (drop (length base) segs) of
              Some (File readable content) \<Rightarrow>
                if readable then Inr content else Inl (JsError ''EACCES: permission denied'')
            | Some (Directory listable entries) \<Rightarrow>
                Inl (JsError ''EISDIR: illegal operation on a directory'')
            | _ \<Rightarrow> Inl (JsError ''ENOENT: no such file or directory'')))"

text \<open>
  \<^verbatim>\<open>hashFile\<close>: the digest of the streamed content; \<open>sha256\<close> stands for
  \<^verbatim>\<open>crypto.createHash('sha256')\<close> with \<^verbatim>\<open>digest('hex')\<close> and is a parameter.
\<close>

definition hashFile ::
  "(string \<Rightarrow> string) \<Rightarrow> string \<Rightarrow> string \<Rightarrow> fs_node \<Rightarrow> string \<Rightarrow> thrown + string" where
  "hashFile sha256 cwd skillDir tree filePath =
     (case createReadStream cwd skillDir tree filePath of
        Inr content \<Rightarrow> Inr (sha256 content)
      | Inl error \<Rightarrow>
          Inl (wrapError error (''Failed to hash file '' @ filePath) FILE_SYSTEM_ERROR
                 [(''filePath'', CStr filePath)]))"

text \<open>
  The \<^verbatim>\<open>for\<close> loop of \<^verbatim>\<open>calculateContentHash\<close>; \<open>hash\<close> is everything passed to
  \<^verbatim>\<open>hash.update\<close> so far.
\<close>

fun calculateContentHash_loop ::
  "(string \<Rightarrow> string) \<Rightarrow> string \<Rightarrow> string \<Rightarrow> string \<Rightarrow> fs_node \<Rightarrow> string list \<Rightarrow> string \<Rightarrow>
   thrown + string" where
  "calculateContentHash_loop sha256 METADATA_FILENAME cwd skillDir tree [] hash = Inr hash"
| "calculateContentHash_loop sha256 METADATA_FILENAME cwd skillDir tree (file # files) hash =
     (let relativePath = path_relative cwd skillDir file
      in if relativePath = METADATA_FILENAME
         then calculateContentHash_loop sha256 METADATA_FILENAME cwd skillDir tree files hash
         else
           (case hashFile sha256 cwd skillDir tree file of
              Inl error \<Rightarrow> Inl error
            | Inr fileHash \<Rightarrow>
                calculateContentHash_loop sha256 METADATA_FILENAME cwd skillDir tree files
                  (hash @ relativePath @ fileHash)))"

definition calculateContentHash ::
  "(string \<Rightarrow> string) \<Rightarrow> string \<Rightarrow> string \<Rightarrow> string \<Rightarrow> fs_node \<Rightarrow> thrown + string" where
  "calculateContentHash sha256 METADATA_FILENAME cwd skillDir tree =
     (let files = sort (getAllFiles tree skillDir)
      in case calculateContentHash_loop sha256 METADATA_FILENAME cwd skillDir tree files [] of
           Inr hash \<Rightarrow> Inr (sha256 hash)
         | Inl error \<Rightarrow>
             Inl (wrapError error (''Failed to calculate content hash for '' @ skillDir)
                    FILE_SYSTEM_ERROR [(''skillDir'', CStr skillDir)]))"

subsection \<open>The reference definition of the content hash\<close>

text \<open>
  Following the words of the specification: the regular files of the directory, collected
  recursively with dot-prefixed directories skipped, as paths relative to the directory;
  without the metadata file; sorted; for each the path and then the digest of its content,
  all folded into one digest.
\<close>

fun regular_files :: "fs_node \<Rightarrow> string list list"
  and regular_files_entries :: "(string \<times> fs_node) list \<Rightarrow> string list list" where
  "regular_files (Directory listable entries) = regular_files_entries entries"
| "regular_files (File readable content) = []"
| "regular_files (Symlink target) = []"
| "regular_files Special = []"
| "regular_files_entries [] = []"
| "regular_files_entries ((name, entry) # rest) =
     (case entry of
        File readable content \<Rightarrow> [[name]]
      | Directory listable entries \<Rightarrow>
          if prefix ''.'' name then [] else map (\<lambda>segs. name # segs) (regular_files entry)
      | _ \<Rightarrow> [])
     @ regular_files_entries rest"

definition content_of :: "fs_node \<Rightarrow> string list \<Rightarrow> string" where
  "content_of tree segs =
     (case node_at tree segs of Some (File readable content) \<Rightarrow> content | _ \<Rightarrow> [])"

definition reference_hash :: "(string \<Rightarrow> string) \<Rightarrow> string \<Rightarrow> fs_node \<Rightarrow> string" where
  "reference_hash digest metadataFile tree =
     digest (concat (map (\<lambda>p. p @ digest (content_of tree (split_path p)))
       (sort (filter (\<lambda>p. p \<noteq> metadataFile) (map (join ''/'') (regular_files tree))))))"




text \<open>The absolute path with the given segments.\<close>

definition absolute_path :: "string list \<Rightarrow> string" where
  "absolute_path segs = ''/'' @ join ''/'' segs"


section \<open>Symlink fan-out (agent-manager, src/unnamed/part_002)\<close>

text \<open>
  The file system as \<^verbatim>\<open>createSymlink\<close> sees it: what lies at a resolved absolute path.
  The intermediate directories of a path are taken to be real directories; a symbolic link
  at the end of a path is followed by \<^verbatim>\<open>stat\<close> and \<^verbatim>\<open>pathExists\<close> (at most 40 links,
  as the kernel does) and not by \<^verbatim>\<open>lstat\<close>.
\<close>

datatype entry = RegularFile | RealDirectory | SymbolicLink string

type_synonym file_system = "string \<rightharpoonup> entry"

fun follow :: "file_system \<Rightarrow> nat \<Rightarrow> string \<Rightarrow> entry option" where
  "follow fs 0 p = (case fs p of Some (SymbolicLink t) \<Rightarrow> None | e \<Rightarrow> e)"
| "follow fs (Suc n) p =
     (case fs p of
        Some (SymbolicLink t) \<Rightarrow> follow fs n (path_resolve (path_dirname p) t)
      | e \<Rightarrow> e)"

definition stat :: "file_system \<Rightarrow> string \<Rightarrow> string \<Rightarrow> entry option" where
  "stat fs cwd p = follow fs 40 (path_resolve cwd p)"

definition lstat :: "file_system \<Rightarrow> string \<Rightarrow> string \<Rightarrow> entry option" where
  "lstat fs cwd p = fs (path_resolve cwd p)"

definition fs_pathExists :: "file_system \<Rightarrow> string \<Rightarrow> string \<Rightarrow> bool" where
  "fs_pathExists fs cwd p = (stat fs cwd p \<noteq> None)"

text \<open>
  \<^verbatim>\<open>fs.ensureDir\<close> (mkdir -p): walks the segments of the resolved path and creates
  each directory that is missing; it fails at a segment that is not a directory. The file
  system is returned in both cases, with the directories created so far.
\<close>

fun ensureDir_segments ::
  "file_system \<Rightarrow> string list \<Rightarrow> string list \<Rightarrow> (thrown + unit) \<times> file_system" where
  "ensureDir_segments fs upper [] = (Inr (), fs)"
| "ensureDir_segments fs upper (seg # below) =
     (let p = absolute_path (upper @ [seg])
      in case follow fs 40 p of
           Some RealDirectory \<Rightarrow> ensureDir_segments fs (upper @ [seg]) below
         | Some e \<Rightarrow> (Inl (JsError (''ENOTDIR: not a directory, mkdir '' @ p)), fs)
         | None \<Rightarrow>
             if fs p = None then ensureDir_segments (fs(p \<mapsto> RealDirectory)) (upper @ [seg]) below
             else (Inl (JsError (''EEXIST: file already exists, mkdir '' @ p)), fs))"

definition ensureDir :: "file_system \<Rightarrow> string \<Rightarrow> string \<Rightarrow> (thrown + unit) \<times> file_system" where
  "ensureDir fs cwd dir = ensureDir_segments fs [] (resolved_segments cwd dir)"

definition unlink :: "file_system \<Rightarrow> string \<Rightarrow> string \<Rightarrow> (thrown + unit) \<times> file_system" where
  "unlink fs cwd p =
     (let r = path_resolve cwd p
      in case fs r of
           None \<Rightarrow> (Inl (JsError (''ENOENT: no such file or directory, unlink '' @ p)), fs)
         | Some RealDirectory \<Rightarrow>
             (Inl (JsError (''EISDIR: illegal operation on a directory, unlink '' @ p)), fs)
         | Some e \<Rightarrow> (Inr (), fs(r := None)))"

text \<open>
  \<^verbatim>\<open>fs.symlink(source, target, type)\<close> fails when something lies at the target or when
  the directory of the target does not exist; the link stores \<open>source\<close> as it is given. The
  type (\<open>dir\<close> or \<open>file\<close>) has no effect on POSIX.
\<close>

definition symlink ::
  "file_system \<Rightarrow> string \<Rightarrow> string \<Rightarrow> string \<Rightarrow> string \<Rightarrow> (thrown + unit) \<times> file_system" where
  "symlink fs cwd source target symlinkType =
     (let r = path_resolve cwd target
      in if fs r \<noteq> None
         then (Inl (JsError (''EEXIST: file already exists, symlink '' @ source @ '' -> '' @ target)), fs)
         else if follow fs 40 (path_dirname r) \<noteq> Some RealDirectory
         then (Inl (JsError (''ENOENT: no such file or directory, symlink '' @ source @ '' -> ''
                      @ target)), fs)
         else (Inr (), fs(r \<mapsto> SymbolicLink source)))"

subsection \<open>The consumer registry\<close>

datatype AgentType = antigravity | claude_code | codex | cursor | gemini_cli | github_copilot

fun AGENT_PATHS :: "AgentType \<Rightarrow> string" where
  "AGENT_PATHS antigravity = ''~/.gemini/antigravity/global_skills/''"
| "AGENT_PATHS claude_code = ''~/.claude/skills/''"
| "AGENT_PATHS codex = ''~/.codex/skills/''"
| "AGENT_PATHS cursor = ''~/.cursor/skills/''"
| "AGENT_PATHS gemini_cli = ''~/.gemini/skills/''"
| "AGENT_PATHS github_copilot = ''~/.copilot/skills/''"

definition getAllAgentTypes :: "AgentType list" where
  "getAllAgentTypes = [antigravity, claude_code, codex, cursor, gemini_cli, github_copilot]"

text \<open>\<^verbatim>\<open>resolveHomePath\<close> (src/utils.ts); \<open>home\<close> is \<^verbatim>\<open>os.homedir()\<close>.\<close>

definition resolveHomePath :: "string \<Rightarrow> string \<Rightarrow> thrown + string" where
  "resolveHomePath home filepath =
     (if filepath = []
      then Inl (SkillManagerError ''File path must be a non-empty string'' VALIDATION_ERROR
                  [(''filepath'', CStr filepath)] None)
      else
        (let resolved = (if startsWith filepath ''~/'' \<or> filepath = ''~''
                         then path_join home (drop 1 filepath) else filepath)
         in Inr (path_normalize resolved)))"

definition getAgentGlobalPath :: "string \<Rightarrow> AgentType \<Rightarrow> thrown + string" where
  "getAgentGlobalPath home agent = resolveHomePath home (AGENT_PATHS agent)"

text \<open>\<^verbatim>\<open>targetAgents.map(...)\<close>: the first path that throws ends the map.\<close>

fun map_throwing :: "('a \<Rightarrow> thrown + 'b) \<Rightarrow> 'a list \<Rightarrow> thrown + 'b list" where
  "map_throwing f [] = Inr []"
| "map_throwing f (x # xs) =
     (case f x of
        Inl e \<Rightarrow> Inl e
      | Inr y \<Rightarrow> (case map_throwing f xs of Inl e \<Rightarrow> Inl e | Inr ys \<Rightarrow> Inr (y # ys)))"

definition getAllAgentGlobalPaths :: "string \<Rightarrow> AgentType list option \<Rightarrow> thrown + string list" where
  "getAllAgentGlobalPaths home agents =
     (let targetAgents = (case agents of
                            Some as \<Rightarrow> if length as > 0 then as else getAllAgentTypes
                          | None \<Rightarrow> getAllAgentTypes)
      in map_throwing (getAgentGlobalPath home) targetAgents)"

subsection \<open>\<^verbatim>\<open>createSymlink\<close>\<close>

text \<open>The file system and what was written to the console.\<close>

record world_state =
  disk :: file_system
  console :: "string list"

definition not_a_symlink_warning :: "string \<Rightarrow> string" where
  "not_a_symlink_warning target =
     ''Warning: '' @ target @ '' already exists and is not a symlink. Skipping symlink creation.''"

text \<open>
  The last two statements of the \<^verbatim>\<open>try\<close> block: \<^verbatim>\<open>fs.stat(source)\<close> for the type of
  the link, then \<^verbatim>\<open>fs.symlink\<close>.
\<close>

definition stat_and_symlink ::
  "file_system \<Rightarrow> string \<Rightarrow> string \<Rightarrow> string \<Rightarrow> (thrown + unit) \<times> file_system" where
  "stat_and_symlink fs cwd source target =
     (case stat fs cwd source of
        None \<Rightarrow> (Inl (JsError (''ENOENT: no such file or directory, stat '' @ source)), fs)
      | Some sourceStats \<Rightarrow>
          (let symlinkType = (if sourceStats = RealDirectory then ''dir'' else ''file'')
           in symlink fs cwd source target symlinkType))"

text \<open>The body of the \<^verbatim>\<open>try\<close> block.\<close>

definition createSymlink_try ::
  "string \<Rightarrow> string \<Rightarrow> world_state \<Rightarrow> string \<Rightarrow> string \<Rightarrow> string \<Rightarrow> (thrown + unit) \<times> world_state" where
  "createSymlink_try cwd home w source target skillName =
     (if \<not> fs_pathExists (disk w) cwd source
      then (Inl (JsError (''Source path does not exist: '' @ source)), w)
      else
        (let targetDir = path_dirname target
         in case getAllAgentGlobalPaths home None of
              Inl e \<Rightarrow> (Inl e, w)
            | Inr allAgentPaths \<Rightarrow>
                (let isValidTarget =
                       list_ex (\<lambda>agentPath. validatePathWithinBase cwd agentPath target None = Inr ())
                         allAgentPaths
                 in if \<not> isValidTarget
                    then (Inl (SkillManagerError
                                 ''Target path is not within any valid agent directory''
                                 VALIDATION_ERROR
                                 [(''target'', CStr target),
                                  (''allowedPaths'', CJson (join '','' allAgentPaths))]
                                 None), w)
                    else
                      (case ensureDir (disk w) cwd targetDir of
                         (Inl e, fs1) \<Rightarrow> (Inl e, w\<lparr>disk := fs1\<rparr>)
                       | (Inr u, fs1) \<Rightarrow>
                           (if fs_pathExists fs1 cwd target
                            then
                              (case lstat fs1 cwd target of
                                 None \<Rightarrow>
                                   (Inl (JsError (''ENOENT: no such file or directory, lstat ''
                                           @ target)), w\<lparr>disk := fs1\<rparr>)
                               | Some (SymbolicLink l) \<Rightarrow>
                                   (case unlink fs1 cwd target of
                                      (Inl e, fs2) \<Rightarrow> (Inl e, w\<lparr>disk := fs2\<rparr>)
                                    | (Inr u, fs2) \<Rightarrow>
                                        (case stat_and_symlink fs2 cwd source target of
                                           (r, fs3) \<Rightarrow> (r, w\<lparr>disk := fs3\<rparr>)))
                               | Some e \<Rightarrow>
                                   (Inr (), w\<lparr>disk := fs1,
                                       console := console w @ [not_a_symlink_warning target]\<rparr>))
                            else
                              (case stat_and_symlink fs1 cwd source target of
                                 (r, fs3) \<Rightarrow> (r, w\<lparr>disk := fs3\<rparr>)))))))"

definition createSymlink ::
  "string \<Rightarrow> string \<Rightarrow> world_state \<Rightarrow> string \<Rightarrow> string \<Rightarrow> string \<Rightarrow> (thrown + unit) \<times> world_state" where
  "createSymlink cwd home w source target skillName =
     (case createSymlink_try cwd home w source target skillName of
        (Inl error, w') \<Rightarrow>
          (Inl (wrapError error
                  (''Failed to create symlink for skill \"'' @ skillName @ ''\" from '' @ source
                     @ '' to '' @ target)
                  FILE_SYSTEM_ERROR
                  [(''source'', CStr source), (''target'', CStr target),
                   (''skillName'', CStr skillName)]), w')
      | (Inr u, w') \<Rightarrow> (Inr u, w'))"

text \<open>What \<^verbatim>\<open>lstat\<close> finds is a real file or a real directory, not a symbolic link.\<close>

definition is_real :: "entry option \<Rightarrow> bool" where
  "is_real e = (e = Some RegularFile \<or> e = Some RealDirectory)"

section \<open>Bounded concurrency (\<^verbatim>\<open>pLimit\<close>, src/utils.ts)\<close>

text \<open>
  \<^verbatim>\<open>pLimit\<close> is an \<^verbatim>\<open>async\<close> function on a single-threaded event loop. It runs
  until it reaches an \<^verbatim>\<open>await\<close>; from then on the loop runs one continuation at a time:
  either the task of an item completes (its \<^verbatim>\<open>fn(item)\<close> has resolved, so
  \<^verbatim>\<open>results.push(result)\<close> runs and the task's promise resolves), or \<^verbatim>\<open>pLimit\<close> itself
  resumes because the promise it awaits has resolved. The order of these events is the
  schedule; it depends on how long each \<^verbatim>\<open>fn(item)\<close> takes and is an input of the model.

  A promise is named by the index of its item. The per-item function is taken to resolve
  (as \<^verbatim>\<open>syncSingleSkill\<close> always does); its result does not depend on the schedule.
\<close>

datatype event = Complete nat | Resume

text \<open>
  Where \<^verbatim>\<open>pLimit\<close> is suspended: at \<^verbatim>\<open>await Promise.race(executing)\<close> inside the
  iteration that created \<open>promise\<close>, at \<^verbatim>\<open>await Promise.all(executing)\<close>, or not at all
  because it has returned the results it held at that moment.
\<close>

datatype 'r suspension = AwaitRace nat | AwaitAll | Returned "'r list"

record ('a, 'r) pLimit_state =
  remaining :: "'a list"
  created :: nat
  executing :: "nat list"
  pending :: "(nat \<times> 'a) list"
  settled :: "nat list"
  results :: "'r list"
  suspended :: "'r suspension"

text \<open>\<^verbatim>\<open>Array.prototype.findIndex\<close> and \<^verbatim>\<open>splice(start, 1)\<close>.\<close>

fun findIndex :: "('a \<Rightarrow> bool) \<Rightarrow> 'a list \<Rightarrow> int" where
  "findIndex P [] = - 1"
| "findIndex P (x # xs) =
     (if P x then 0 else (let i = findIndex P xs in if i < 0 then - 1 else i + 1))"

definition splice_one :: "'a list \<Rightarrow> int \<Rightarrow> 'a list" where
  "splice_one xs start =
     (let n = int (length xs);
          s = (if start < 0 then max (n + start) 0 else min start n)
      in take (nat s) xs @ drop (nat s + 1) xs)"

text \<open>
  The \<^verbatim>\<open>for\<close> loop from the item it is at, up to the next \<^verbatim>\<open>await\<close>: each iteration
  creates the task's promise and pushes it; when \<open>executing\<close> has reached the bound the loop
  awaits the race, and after the last item it awaits all of \<open>executing\<close>.
\<close>

fun pLimit_loop :: "int \<Rightarrow> ('a, 'r) pLimit_state \<Rightarrow> 'a list \<Rightarrow> ('a, 'r) pLimit_state" where
  "pLimit_loop concurrency st [] = st\<lparr>remaining := [], suspended := AwaitAll\<rparr>"
| "pLimit_loop concurrency st (item # items) =
     (let promise = created st;
          st1 = st\<lparr>created := promise + 1,
                   pending := pending st @ [(promise, item)],
                   executing := executing st @ [promise]\<rparr>
      in if int (length (executing st1)) \<ge> concurrency
         then st1\<lparr>remaining := items, suspended := AwaitRace promise\<rparr>
         else pLimit_loop concurrency st1 items)"

definition pLimit_start :: "'a list \<Rightarrow> int \<Rightarrow> ('a, 'r) pLimit_state" where
  "pLimit_start items concurrency =
     pLimit_loop concurrency
       \<lparr>remaining = items, created = 0, executing = [], pending = [], settled = [],
        results = [], suspended = AwaitAll\<rparr>
       items"

text \<open>
  One event. A task can complete when it has been created and has not completed yet.
  \<^verbatim>\<open>pLimit\<close> resumes from the race when one promise of \<open>executing\<close> has settled; it
  then removes from \<open>executing\<close> the promise at \<^verbatim>\<open>findIndex((p) => p === promise)\<close>, which
  is the promise of the current iteration, and goes on with the loop. It resumes from
  \<^verbatim>\<open>Promise.all\<close> when every promise of \<open>executing\<close> has settled, and returns \<open>results\<close>.
  \<open>None\<close>: the event cannot happen in this state.
\<close>

definition step ::
  "('a \<Rightarrow> 'r) \<Rightarrow> int \<Rightarrow> ('a, 'r) pLimit_state \<Rightarrow> event \<Rightarrow> ('a, 'r) pLimit_state option" where
  "step fn concurrency st ev =
     (case ev of
        Complete i \<Rightarrow>
          (case map_of (pending st) i of
             None \<Rightarrow> None
           | Some item \<Rightarrow>
               Some (st\<lparr>results := results st @ [fn item],
                        pending := filter (\<lambda>(j, x). j \<noteq> i) (pending st),
                        settled := settled st @ [i]\<rparr>))
      | Resume \<Rightarrow>
          (case suspended st of
             AwaitRace promise \<Rightarrow>
               if list_ex (\<lambda>p. p \<in> set (settled st)) (executing st)
               then Some (pLimit_loop concurrency
                            (st\<lparr>executing :=
                                  splice_one (executing st)
                                    (findIndex (\<lambda>p. p = promise) (executing st))\<rparr>)
                            (remaining st))
               else None
           | AwaitAll \<Rightarrow>
               if list_all (\<lambda>p. p \<in> set (settled st)) (executing st)
               then Some (st\<lparr>suspended := Returned (results st)\<rparr>)
               else None
           | Returned rs \<Rightarrow> None))"

fun run_schedule ::
  "('a \<Rightarrow> 'r) \<Rightarrow> int \<Rightarrow> ('a, 'r) pLimit_state \<Rightarrow> event list \<Rightarrow> ('a, 'r) pLimit_state option" where
  "run_schedule fn concurrency st [] = Some st"
| "run_schedule fn concurrency st (ev # evs) =
     (case step fn concurrency st ev of
        None \<Rightarrow> None
      | Some st' \<Rightarrow> run_schedule fn concurrency st' evs)"

text \<open>
  What \<^verbatim>\<open>pLimit\<close> returns under a schedule: \<open>None\<close> when the schedule is not one of
  its executions or ends before it has returned.
\<close>

definition pLimit :: "'a list \<Rightarrow> ('a \<Rightarrow> 'r) \<Rightarrow> int \<Rightarrow> event list \<Rightarrow> 'r list option" where
  "pLimit items fn concurrency schedule =
     (case run_schedule fn concurrency (pLimit_start items concurrency) schedule of
        None \<Rightarrow> None
      | Some st \<Rightarrow> (case suspended st of Returned rs \<Rightarrow> Some rs | _ \<Rightarrow> None))"

text \<open>The tasks that complete in a schedule, in the order of their completion.\<close>

fun completions :: "event list \<Rightarrow> nat list" where
  "completions [] = []"
| "completions (Complete i # evs) = i # completions evs"
| "completions (Resume # evs) = completions evs"

section \<open>Sync orchestrator (src/sync.ts)\<close>

record SkillConfig =
  type :: string
  remote :: string
  ref :: "string option"
  filename :: "string option"
  agents :: "AgentType list option"

text \<open>
  A skill entry is an object with exactly one key (the schema refuses any other), kept as
  the pair of the key and its value.
\<close>

record Config =
  skillsPath :: string
  skills :: "(string \<times> SkillConfig) list"

record FetchResult =
  skillName :: string
  success :: bool
  error :: "string option"
  skipped :: "bool option"
  reason :: "string option"

record SkipCheckResult =
  shouldSkip :: bool
  skip_reason :: "string option"
  needsInteraction :: "bool option"

type_synonym IFetcher = "string \<Rightarrow> SkillConfig \<Rightarrow> string \<Rightarrow> thrown + unit"

text \<open>
  What \<^verbatim>\<open>syncSingleSkill\<close> calls and this development does not look into: the modules
  \<^verbatim>\<open>validation\<close>, \<^verbatim>\<open>skip-checker\<close> and \<^verbatim>\<open>interaction\<close> are not among the sources,
  \<^verbatim>\<open>validateSkillConfig\<close> rests on the first of them, the fetchers reach the network, and
  the outcome of the symlink fan-out is ignored by \<^verbatim>\<open>syncSingleSkill\<close>. Each is called
  at most once while one skill is synced; the record holds what the call returns or throws.
\<close>

record sync_env =
  sanitizeSkillName :: "string \<Rightarrow> thrown + string"
  validateSkillConfig :: "string \<Rightarrow> SkillConfig \<Rightarrow> thrown + unit"
  shouldSkipSync :: "string \<Rightarrow> SkillConfig \<Rightarrow> string \<Rightarrow> thrown + SkipCheckResult"
  promptForOverwrite :: "string \<Rightarrow> thrown + bool"
  fetchers :: "(string \<times> IFetcher) list"
  createSymlinksForSkill :: "string \<Rightarrow> string \<Rightarrow> AgentType list option \<Rightarrow> thrown + unit"

definition MAX_CONCURRENT_SYNCS :: int where
  "MAX_CONCURRENT_SYNCS = 5"

text \<open>\<^verbatim>\<open>FetcherFactory.getFetcher\<close> (src/fetcher-factory.ts) on the registered fetchers.\<close>

definition getFetcher :: "(string \<times> IFetcher) list \<Rightarrow> string \<Rightarrow> thrown + IFetcher" where
  "getFetcher registered t =
     (case map_of registered t of
        None \<Rightarrow>
          Inl (SkillManagerError (''Unsupported skill type: '' @ t) VALIDATION_ERROR
                 [(''type'', CStr t), (''supportedTypes'', CJson (join '','' (map fst registered)))]
                 None)
      | Some fetcher \<Rightarrow> Inr fetcher)"

text \<open>
  The message of the last \<^verbatim>\<open>catch\<close>: \<^verbatim>\<open>getDetailedMessage()\<close> of a
  \<^verbatim>\<open>SkillManagerError\<close>, the message of another \<^verbatim>\<open>Error\<close>, \<^verbatim>\<open>String(error)\<close> otherwise.
\<close>

fun errorMessage_of :: "thrown \<Rightarrow> string" where
  "errorMessage_of (SkillManagerError m c ctx orig) = getDetailedMessage m ctx"
| "errorMessage_of (JsError m) = m"
| "errorMessage_of (NonError s) = s"

definition skipped_result :: "string \<Rightarrow> SkipCheckResult \<Rightarrow> FetchResult" where
  "skipped_result name skipCheck =
     \<lparr>skillName = name, success = True, error = None, skipped = Some True,
      reason = skip_reason skipCheck\<rparr>"

definition succeeded :: "string \<Rightarrow> FetchResult" where
  "succeeded name =
     \<lparr>skillName = name, success = True, error = None, skipped = None, reason = None\<rparr>"

definition failed :: "string \<Rightarrow> string \<Rightarrow> FetchResult" where
  "failed name errorMessage =
     \<lparr>skillName = name, success = False, error = Some errorMessage, skipped = None,
      reason = None\<rparr>"

text \<open>
  The second \<^verbatim>\<open>try\<close> block of \<^verbatim>\<open>syncSingleSkill\<close>, in two parts. First what runs
  from the fetcher lookup on: the fetch, then the fan-out, whose error is caught and
  logged.
\<close>

definition fetch_and_link ::
  "sync_env \<Rightarrow> string \<Rightarrow> SkillConfig \<Rightarrow> Config \<Rightarrow> thrown + FetchResult" where
  "fetch_and_link env name skillConfig config =
     (case getFetcher (fetchers env) (type skillConfig) of
        Inl e \<Rightarrow> Inl e
      | Inr fetcher \<Rightarrow>
          (case fetcher name skillConfig (skillsPath config) of
             Inl e \<Rightarrow> Inl e
           | Inr u \<Rightarrow>
               (let skillSourcePath = path_join (skillsPath config) name
                in case createSymlinksForSkill env name skillSourcePath (agents skillConfig) of
                     Inl symlinkError \<Rightarrow> Inr (succeeded name)
                   | Inr u \<Rightarrow> Inr (succeeded name))))"

definition syncSingleSkill_try ::
  "sync_env \<Rightarrow> string \<Rightarrow> SkillConfig \<Rightarrow> Config \<Rightarrow> bool \<Rightarrow> string list option \<Rightarrow>
   thrown + FetchResult" where
  "syncSingleSkill_try env name skillConfig config dryRun forceSkills =
     (case validateSkillConfig env name skillConfig of
        Inl e \<Rightarrow> Inl e
      | Inr u \<Rightarrow>
          if dryRun then Inr (succeeded name)
          else
            (let shouldForce =
                   (case forceSkills of
                      None \<Rightarrow> False
                    | Some fs \<Rightarrow> length fs > 0 \<and> name \<in> set fs)
             in if \<not> shouldForce
                then
                  (case shouldSkipSync env name skillConfig (skillsPath config) of
                     Inl e \<Rightarrow> Inl e
                   | Inr skipCheck \<Rightarrow>
                       if shouldSkip skipCheck then Inr (skipped_result name skipCheck)
                       else if needsInteraction skipCheck = Some True
                       then
                         (case promptForOverwrite env name of
                            Inl e \<Rightarrow> Inl e
                          | Inr shouldOverwrite \<Rightarrow>
                              if \<not> shouldOverwrite then Inr (skipped_result name skipCheck)
                              else fetch_and_link env name skillConfig config)
                       else fetch_and_link env name skillConfig config)
                else fetch_and_link env name skillConfig config))"

definition syncSingleSkill ::
  "sync_env \<Rightarrow> string \<times> SkillConfig \<Rightarrow> Config \<Rightarrow> bool \<Rightarrow> string list option \<Rightarrow> FetchResult" where
  "syncSingleSkill env skillEntry config dryRun forceSkills =
     (let rawSkillName = fst skillEntry;
          skillConfig = snd skillEntry
      in case sanitizeSkillName env rawSkillName of
           Inl e \<Rightarrow> failed rawSkillName (message e)
         | Inr name \<Rightarrow>
             (case syncSingleSkill_try env name skillConfig config dryRun forceSkills of
                Inl e \<Rightarrow> failed name (errorMessage_of e)
              | Inr result \<Rightarrow> result))"

text \<open>\<^verbatim>\<open>syncSkills\<close>, under a schedule of the event loop.\<close>

definition syncSkills ::
  "sync_env \<Rightarrow> Config \<Rightarrow> bool \<Rightarrow> string list option \<Rightarrow> event list \<Rightarrow> FetchResult list option" where
  "syncSkills env config dryRun forceSkills schedule =
     pLimit (skills config)
       (\<lambda>skillEntry. syncSingleSkill env skillEntry config dryRun forceSkills)
       MAX_CONCURRENT_SYNCS schedule"

text \<open>
  The sync of a skill reaches the call of \<open>fetcher\<close> under the sanitized \<open>name\<close>: the name
  and the configuration are valid, the run is not a dry run, the skill is forced or the skip
  check neither skips it nor ends in a declined prompt, and \<open>fetcher\<close> is registered for its
  type.
\<close>

definition reaches_fetch ::
  "sync_env \<Rightarrow> string \<times> SkillConfig \<Rightarrow> Config \<Rightarrow> bool \<Rightarrow> string list option \<Rightarrow> string \<Rightarrow>
   IFetcher \<Rightarrow> bool" where
  "reaches_fetch env skillEntry config dryRun forceSkills name fetcher =
     (sanitizeSkillName env (fst skillEntry) = Inr name
      \<and> validateSkillConfig env name (snd skillEntry) = Inr ()
      \<and> \<not> dryRun
      \<and> ((case forceSkills of None \<Rightarrow> False | Some fs \<Rightarrow> length fs > 0 \<and> name \<in> set fs)
          \<or> (case shouldSkipSync env name (snd skillEntry) (skillsPath config) of
                Inl e \<Rightarrow> False
              | Inr skipCheck \<Rightarrow>
                  \<not> shouldSkip skipCheck
                  \<and> (needsInteraction skipCheck \<noteq> Some True
                      \<or> promptForOverwrite env name = Inr True)))
      \<and> getFetcher (fetchers env) (type (snd skillEntry)) = Inr fetcher)"

subsection \<open>Invariants of the schedule\<close>

text \<open>
  In every state of a run: \<open>results\<close> holds the results of the completed tasks in the order
  of their completion, no task has completed twice, and a pending task is a created one
  that has not completed, with the item of its index.
\<close>

definition consistent :: "'a list \<Rightarrow> ('a \<Rightarrow> 'r) \<Rightarrow> ('a, 'r) pLimit_state \<Rightarrow> bool" where
  "consistent items fn st =
     (results st = map (\<lambda>i. fn (items ! i)) (settled st)
      \<and> list_all (\<lambda>(i, x). i < created st \<and> x = items ! i \<and> i \<notin> set (settled st)) (pending st)
      \<and> distinct (settled st)
      \<and> list_all (\<lambda>i. i < created st) (settled st)
      \<and> created st \<le> length items)"

text \<open>
  Below the bound the loop never awaits the race: every promise is in \<open>executing\<close> and
  \<^verbatim>\<open>pLimit\<close> waits for all of them.
\<close>

definition all_started :: "nat \<Rightarrow> ('a, 'r) pLimit_state \<Rightarrow> bool" where
  "all_started n st =
     (executing st = [0..<n] \<and> (suspended st = AwaitAll \<or> (\<exists>rs. suspended st = Returned rs)))"

text \<open>
  What lets a run go on until \<^verbatim>\<open>pLimit\<close> returns: the pending tasks are the created ones
  that have not completed, the promises of \<open>executing\<close> are created ones, and the promise
  awaited in a race is in \<open>executing\<close>. \<open>steps_left\<close> bounds how often \<^verbatim>\<open>pLimit\<close> still
  resumes from a race.
\<close>

definition awaited_ready :: "('a, 'r) pLimit_state \<Rightarrow> bool" where
  "awaited_ready st =
     (distinct (map fst (pending st))
      \<and> list_all (\<lambda>i. i < created st) (map fst (pending st))
      \<and> list_all (\<lambda>p. p < created st) (executing st)
      \<and> list_all (\<lambda>i. i \<in> set (settled st) \<or> i \<in> set (map fst (pending st))) [0..<created st]
      \<and> (case suspended st of AwaitRace p \<Rightarrow> p \<in> set (executing st) | _ \<Rightarrow> True))"

definition steps_left :: "('a, 'r) pLimit_state \<Rightarrow> nat" where
  "steps_left st =
     length (remaining st) + (case suspended st of AwaitRace p \<Rightarrow> 1 | _ \<Rightarrow> 0)"

section \<open>Example inputs\<close>

text \<open>An operation that counts its calls and throws the same value at each of them.\<close>

definition always_fails :: "thrown \<Rightarrow> nat \<Rightarrow> (thrown + unit) \<times> nat" where
  "always_fails e s = (Inl e, Suc s)"

definition example_http :: http_config where
  "example_http = \<lparr>MAX_RETRIES = 3, INITIAL_BACKOFF = 1000, MAX_BACKOFF = 30000\<rparr>"

definition no_overrides :: retry_overrides where
  "no_overrides = \<lparr>maxRetries_opt = None, initialBackoff_opt = None, maxBackoff_opt = None,
     backoffMultiplier_opt = None, isRetryable_opt = None\<rparr>"

text \<open>
  A metadata file at \<open>/s/a/.meta\<close> with the given content (or no file, or an unreadable
  one), and \<^verbatim>\<open>JSON.parse\<close> on the three texts of the examples.
\<close>

definition meta_file :: "string \<Rightarrow> fs_reader" where
  "meta_file content =
     \<lparr> pathExists = (\<lambda>p. p = ''/s/a/.meta''),
       readFile = (\<lambda>p. if p = ''/s/a/.meta'' then Inr content
                       else Inl (JsError ''ENOENT: no such file or directory'')) \<rparr>"

definition no_meta_file :: fs_reader where
  "no_meta_file =
     \<lparr> pathExists = (\<lambda>p. False),
       readFile = (\<lambda>p. Inl (JsError ''ENOENT: no such file or directory'')) \<rparr>"

definition unreadable_meta_file :: fs_reader where
  "unreadable_meta_file =
     \<lparr> pathExists = (\<lambda>p. p = ''/s/a/.meta''),
       readFile = (\<lambda>p. Inl (JsError ''EACCES: permission denied'')) \<rparr>"

definition good_text :: string where
  \<open>good_text = ''{"remote":"r","type":"GIST","lastSync":"t","contentHash":"h"}''\<close>

definition good_json :: json where
  "good_json = JObject [(''remote'', JString ''r''), (''type'', JString ''GIST''),
     (''lastSync'', JString ''t''), (''contentHash'', JString ''h'')]"

definition empty_hash_text :: string where
  \<open>empty_hash_text = ''{"remote":"r","type":"GIST","lastSync":"t","contentHash":""}''\<close>

definition empty_hash_json :: json where
  "empty_hash_json = JObject [(''remote'', JString ''r''), (''type'', JString ''GIST''),
     (''lastSync'', JString ''t''), (''contentHash'', JString [])]"

definition example_JSON_parse :: "string \<Rightarrow> thrown + json" where
  "example_JSON_parse content =
     (if content = good_text then Inr good_json
      else if content = empty_hash_text then Inr empty_hash_json
      else Inl (JsError ''SyntaxError: Unexpected token''))"

text \<open>
  A stand-in for SHA-256 in the examples: it brackets its input, so that a digest shows
  what was hashed. Three skill directories: one with a dot directory, a metadata file and a
  symbolic link; one with a directory that cannot be listed; one with a file that cannot be
  read.
\<close>

definition example_digest :: "string \<Rightarrow> string" where
  "example_digest s = ''<'' @ s @ ''>''"


definition locked_tree :: fs_node where
  "locked_tree = Directory True
     [(''a.md'', File True ''A''),
      (''locked'', Directory False [(''f'', File True ''F'')])]"

definition unreadable_tree :: fs_node where
  "unreadable_tree = Directory True
     [(''a.md'', File True ''A''),
      (''b.md'', File False ''B'')]"

text \<open>
  A home directory with a synced skill and, under the skills directory of one consumer, a
  real file \<open>a\<close>, a link \<open>b\<close> to an older skill directory and nothing at \<open>d\<close>.
\<close>

definition example_disk :: file_system where
  "example_disk =
     [''/home'' \<mapsto> RealDirectory,
      ''/home/u'' \<mapsto> RealDirectory,
      ''/home/u/.agents/skills/a'' \<mapsto> RealDirectory,
      ''/home/u/.agents/skills/old'' \<mapsto> RealDirectory,
      ''/home/u/.claude'' \<mapsto> RealDirectory,
      ''/home/u/.claude/skills'' \<mapsto> RealDirectory,
      ''/home/u/.claude/skills/a'' \<mapsto> RegularFile,
      ''/home/u/.claude/skills/b'' \<mapsto> SymbolicLink ''/home/u/.agents/skills/old'']"

definition example_world :: world_state where
  "example_world = \<lparr>disk = example_disk, console = []\<rparr>"

text \<open>
  Skills of one type whose fetcher throws the given value for the skill \<open>b\<close> and succeeds
  for every other; names and configurations are valid, nothing is skipped.
\<close>

definition gist_config :: SkillConfig where
  "gist_config = \<lparr>type = ''GIST'', remote = ''https://gist.github.com/u/1'', ref = None,
     filename = None, agents = None\<rparr>"

definition three_skills :: Config where
  "three_skills = \<lparr>skillsPath = ''/s'',
     skills = [(''a'', gist_config), (''b'', gist_config), (''c'', gist_config)]\<rparr>"

definition five_skills :: Config where
  "five_skills = \<lparr>skillsPath = ''/s'',
     skills = [(''a'', gist_config), (''b'', gist_config), (''c'', gist_config),
               (''d'', gist_config), (''e'', gist_config)]\<rparr>"

definition fetch_failing_for_b :: "thrown \<Rightarrow> IFetcher" where
  "fetch_failing_for_b e name skillConfig path = (if name = ''b'' then Inl e else Inr ())"

definition example_env :: "IFetcher \<Rightarrow> sync_env" where
  "example_env fetcher =
     \<lparr> sanitizeSkillName = (\<lambda>name. Inr name),
       validateSkillConfig = (\<lambda>name skillConfig. Inr ()),
       shouldSkipSync = (\<lambda>name skillConfig path.
          Inr \<lparr>shouldSkip = False, skip_reason = None, needsInteraction = None\<rparr>),
       promptForOverwrite = (\<lambda>name. Inr True),
       fetchers = [(''GIST'', fetcher)],
       createSymlinksForSkill = (\<lambda>name path agents. Inr ()) \<rparr>"

definition network_error :: thrown where
  "network_error = SkillManagerError ''Failed to fetch gist'' NETWORK_ERROR
     [(''skillName'', CStr ''b'')] None"

definition times_ten :: "nat \<Rightarrow> nat" where
  "times_ten x = 10 * x"

section \<open>Properties of the retry policy\<close>

declare withRetry_loop.simps [simp del]

text \<open>
  While every call fails with a retryable error, the loop started at \<open>attempt\<close> runs up to
  attempt \<open>maxRetries\<close>, sleeping \<open>calculateBackoff k\<close> after each failed attempt \<open>k\<close> but
  the last, and throws what the last call threw.
\<close>

lemma withRetry_loop_exhaust:
  assumes retry: "\<forall>s. \<exists>e. fst (operation s) = Inl e \<and> isRetryable cfg (as_Error e)"
  shows "attempt \<le> maxRetries cfg \<Longrightarrow>
     withRetry_loop operation name cfg attempt lastError run =
       (fst (operation (states operation (nat (maxRetries cfg - attempt)) (world run))),
        run\<lparr>world := states operation (nat (maxRetries cfg - attempt + 1)) (world run),
            calls := calls run + nat (maxRetries cfg - attempt + 1),
            slept := slept run @ map (\<lambda>k. calculateBackoff k cfg) [attempt..maxRetries cfg - 1]\<rparr>)"
  using retry
proof (induction operation name cfg attempt lastError run rule: withRetry_loop.induct)
  case (1 operation operationName finalConfig attempt lastError run)
  from "1.prems" obtain e where e: "fst (operation (world run)) = Inl e"
      and r: "isRetryable finalConfig (as_Error e)"
    by blast
  obtain w where w: "operation (world run) = (Inl e, w)"
    using e by (cases "operation (world run)") simp
  show ?case
  proof (cases "attempt = maxRetries finalConfig")
    case True
    then show ?thesis
      by (subst withRetry_loop.simps) (simp add: w)
  next
    case False
    with "1.prems" have lt: "attempt < maxRetries finalConfig" by simp
    have n: "nat (maxRetries finalConfig - attempt)
               = Suc (nat (maxRetries finalConfig - (attempt + 1)))"
      using lt by simp
    have n2: "nat (maxRetries finalConfig - attempt + 1)
               = Suc (nat (maxRetries finalConfig - (attempt + 1) + 1))"
      using lt by simp
    have u: "[attempt..maxRetries finalConfig - 1]
               = attempt # [attempt + 1..maxRetries finalConfig - 1]"
      using lt by (simp add: upto_rec1)
    have ih: "withRetry_loop operation operationName finalConfig (attempt + 1) (Some (as_Error e))
         (run\<lparr>world := w, calls := calls run + 1,
              slept := slept run @ [calculateBackoff attempt finalConfig]\<rparr>) =
       (fst (operation (states operation (nat (maxRetries finalConfig - (attempt + 1))) w)),
        run\<lparr>world := states operation (nat (maxRetries finalConfig - (attempt + 1) + 1)) w,
            calls := calls run + 1 + nat (maxRetries finalConfig - (attempt + 1) + 1),
            slept := (slept run @ [calculateBackoff attempt finalConfig])
               @ map (\<lambda>k. calculateBackoff k finalConfig) [attempt + 1..maxRetries finalConfig - 1]\<rparr>)"
      using "1.IH"[OF _ w[symmetric] refl refl refl _ refl] lt r "1.prems"(2)
      by simp
    have step: "withRetry_loop operation operationName finalConfig attempt lastError run =
        withRetry_loop operation operationName finalConfig (attempt + 1) (Some (as_Error e))
         (run\<lparr>world := w, calls := calls run + 1,
              slept := slept run @ [calculateBackoff attempt finalConfig]\<rparr>)"
      by (subst withRetry_loop.simps) (use lt r in \<open>simp add: w\<close>)
    show ?thesis
      unfolding step ih n n2 u by (simp add: w)
  qed
qed

text \<open>
  C2, as amended. With \<open>maxRetries \<ge> 1\<close> in the merged configuration: an operation whose
  every call throws an error classified as retryable is called exactly \<open>maxRetries\<close> times,
  and the value thrown by the last call is rethrown as it is; an operation whose first call
  throws an error classified as not retryable is called exactly once, nothing is slept, and
  the thrown value is rethrown as it is.
\<close>

theorem withRetry_attempts:
  assumes cfg: "cfg = merge_config defaults config"
    and m: "1 \<le> maxRetries cfg"
  shows "((\<forall>s. \<exists>e. fst (operation s) = Inl e \<and> isRetryable cfg (as_Error e)) \<longrightarrow>
           withRetry defaults operation name config w =
             (fst (operation (states operation (nat (maxRetries cfg) - 1) w)),
              \<lparr>world = states operation (nat (maxRetries cfg)) w,
               calls = nat (maxRetries cfg),
               slept = map (\<lambda>k. calculateBackoff k cfg) [1..maxRetries cfg - 1]\<rparr>))
       \<and> (\<forall>e w'. operation w = (Inl e, w') \<and> \<not> isRetryable cfg (as_Error e) \<longrightarrow>
           withRetry defaults operation name config w
             = (Inl e, \<lparr>world = w', calls = 1, slept = []\<rparr>))"
proof (intro conjI impI allI)
  assume a: "\<forall>s. \<exists>e. fst (operation s) = Inl e \<and> isRetryable cfg (as_Error e)"
  have n: "nat (maxRetries cfg - 1) = nat (maxRetries cfg) - 1"
    by simp
  have n2: "nat (maxRetries cfg - 1 + 1) = nat (maxRetries cfg)"
    by simp
  show "withRetry defaults operation name config w =
             (fst (operation (states operation (nat (maxRetries cfg) - 1) w)),
              \<lparr>world = states operation (nat (maxRetries cfg)) w,
               calls = nat (maxRetries cfg),
               slept = map (\<lambda>k. calculateBackoff k cfg) [1..maxRetries cfg - 1]\<rparr>)"
    unfolding withRetry_def cfg[symmetric] withRetry_loop_exhaust[OF a m] n n2 by simp
next
  fix e w'
  assume "operation w = (Inl e, w') \<and> \<not> isRetryable cfg (as_Error e)"
  then show "withRetry defaults operation name config w
      = (Inl e, \<lparr>world = w', calls = 1, slept = []\<rparr>)"
    unfolding withRetry_def cfg[symmetric] using m
    by (subst withRetry_loop.simps) simp
qed

theorem withRetry_attempts_witness:
  "withRetry (DEFAULT_RETRY_CONFIG example_http) (always_fails (JsError ''ECONNRESET''))
       ''operation'' no_overrides 0
     = (Inl (JsError ''ECONNRESET''), \<lparr>world = 3, calls = 3, slept = [1000, 2000]\<rparr>)
   \<and> withRetry (DEFAULT_RETRY_CONFIG example_http) (always_fails (JsError ''bad''))
       ''operation'' no_overrides 0
     = (Inl (JsError ''bad''), \<lparr>world = 1, calls = 1, slept = []\<rparr>)"
proof -
  define cfg where "cfg = merge_config (DEFAULT_RETRY_CONFIG example_http) no_overrides"
  have mx: "maxRetries cfg = 3"
    by (simp add: cfg_def merge_config_def DEFAULT_RETRY_CONFIG_def example_http_def
        no_overrides_def)
  have rt: "isRetryable cfg = default_isRetryable"
    by (simp add: cfg_def merge_config_def DEFAULT_RETRY_CONFIG_def no_overrides_def)
  have m: "1 \<le> maxRetries cfg"
    by (simp add: mx)
  have yes: "default_isRetryable (as_Error (JsError ''ECONNRESET''))"
    by code_simp
  have no: "\<not> default_isRetryable (as_Error (JsError ''bad''))"
    by code_simp
  have every: "\<forall>s. \<exists>e. fst (always_fails (JsError ''ECONNRESET'') s) = Inl e
      \<and> isRetryable cfg (as_Error e)"
    using yes by (simp add: always_fails_def rt)
  have first: "always_fails (JsError ''bad'') 0 = (Inl (JsError ''bad''), 1)
      \<and> \<not> isRetryable cfg (as_Error (JsError ''bad''))"
    using no by (simp add: always_fails_def rt)
  have st: "states (always_fails e) n s = s + n" for e n s
    by (induction n arbitrary: s) (simp_all add: always_fails_def)
  have bk: "map (\<lambda>k. calculateBackoff k cfg) [1..2] = [1000, 2000]"
    by (simp add: upto_rec1 calculateBackoff_def Math_pow_def cfg_def merge_config_def
        DEFAULT_RETRY_CONFIG_def example_http_def no_overrides_def)
  from withRetry_attempts[OF cfg_def m, where operation = "always_fails (JsError ''ECONNRESET'')"
      and name = "''operation''" and w = 0] every
  have one: "withRetry (DEFAULT_RETRY_CONFIG example_http) (always_fails (JsError ''ECONNRESET''))
       ''operation'' no_overrides 0
     = (Inl (JsError ''ECONNRESET''), \<lparr>world = 3, calls = 3, slept = [1000, 2000]\<rparr>)"
    by (simp add: mx st bk) (simp add: always_fails_def)
  from withRetry_attempts[OF cfg_def m, where operation = "always_fails (JsError ''bad'')"
      and name = "''operation''" and w = 0] first
  have two: "withRetry (DEFAULT_RETRY_CONFIG example_http) (always_fails (JsError ''bad''))
       ''operation'' no_overrides 0
     = (Inl (JsError ''bad''), \<lparr>world = 1, calls = 1, slept = []\<rparr>)"
    by blast
  from one two show ?thesis by simp
qed

text \<open>
  C2 as stated fails where \<open>maxRetries\<close> is \<open>0\<close>: the operation is never called, and the
  error thrown is a new one, made by \<^verbatim>\<open>withRetry\<close> itself. So an operation that always
  throws a retryable error does not get its own error back, and one that throws a
  non-retryable error is not called once.
\<close>

theorem withRetry_zero_retries_counterexample:
  "default_isRetryable (as_Error (JsError ''ECONNRESET''))
   \<and> withRetry (DEFAULT_RETRY_CONFIG example_http) (always_fails (JsError ''ECONNRESET''))
        ''operation'' (no_overrides\<lparr>maxRetries_opt := Some 0\<rparr>) 0
       = (Inl (JsError ''operation failed after 0 retries''),
          \<lparr>world = 0, calls = 0, slept = []\<rparr>)
   \<and> \<not> default_isRetryable (as_Error (JsError ''bad''))
   \<and> withRetry (DEFAULT_RETRY_CONFIG example_http) (always_fails (JsError ''bad''))
        ''operation'' (no_overrides\<lparr>maxRetries_opt := Some 0\<rparr>) 0
       = (Inl (JsError ''operation failed after 0 retries''),
          \<lparr>world = 0, calls = 0, slept = []\<rparr>)"
  by code_simp

text \<open>
  More generally, with \<open>maxRetries \<le> 0\<close> in the merged configuration the operation is never
  called, nothing is slept, and the error thrown is the one made after the loop.
\<close>

lemma withRetry_no_attempts:
  assumes "cfg = merge_config defaults config" and "maxRetries cfg \<le> 0"
  shows "withRetry defaults operation name config w =
     (Inl (JsError (name @ '' failed after '' @ string_of_int (maxRetries cfg) @ '' retries'')),
      \<lparr>world = w, calls = 0, slept = []\<rparr>)"
  unfolding withRetry_def assms(1)[symmetric] using assms(2)
  by (subst withRetry_loop.simps) simp

text \<open>
  C8. For every attempt number \<open>n \<ge> 1\<close> and every configuration, the delay that
  \<^verbatim>\<open>calculateBackoff\<close> computes is
  \<open>min (initialBackoff * backoffMultiplier ^ (n - 1)) maxBackoff\<close>.
\<close>

theorem calculateBackoff_formula:
  "1 \<le> n \<Longrightarrow> calculateBackoff (int n) cfg =
     min (initialBackoff cfg * backoffMultiplier cfg ^ (n - 1)) (maxBackoff cfg)"
  by (simp add: calculateBackoff_def Math_pow_def nat_diff_distrib')

theorem calculateBackoff_formula_witness:
  "(1::nat) \<le> 3 \<and> calculateBackoff (int 3) (DEFAULT_RETRY_CONFIG example_http) = 4000
   \<and> (1::nat) \<le> 7 \<and> calculateBackoff (int 7) (DEFAULT_RETRY_CONFIG example_http) = 30000"
  using calculateBackoff_formula[of 3 "DEFAULT_RETRY_CONFIG example_http"]
    calculateBackoff_formula[of 7 "DEFAULT_RETRY_CONFIG example_http"]
  by (simp add: DEFAULT_RETRY_CONFIG_def example_http_def)

section \<open>Properties of paths\<close>

lemma split_path_nonempty: "split_path s \<noteq> []"
  by (induction s) (auto split: list.splits)

lemma split_path_append:
  "split_path (a @ CHR ''/'' # b) = split_path a @ split_path b"
  by (induction a) (auto split: list.splits simp: split_path_nonempty)

lemma split_path_no_separator: "CHR ''/'' \<notin> set s \<Longrightarrow> split_path s = [s]"
  by (induction s) auto

lemma join_Cons: "segs \<noteq> [] \<Longrightarrow> join sep (s # segs) = s @ sep @ join sep segs"
  by (cases segs) auto

lemma join_append:
  "xs \<noteq> [] \<Longrightarrow> ys \<noteq> [] \<Longrightarrow> join sep (xs @ ys) = join sep xs @ sep @ join sep ys"
  by (induction sep xs rule: join.induct) (auto simp: join_Cons)

lemma split_path_join:
  "segs \<noteq> [] \<Longrightarrow> \<forall>s \<in> set segs. CHR ''/'' \<notin> set s \<Longrightarrow> split_path (join ''/'' segs) = segs"
proof (induction segs)
  case Nil
  then show ?case by simp
next
  case (Cons s segs)
  show ?case
  proof (cases segs)
    case Nil
    with Cons.prems show ?thesis by (simp add: split_path_no_separator)
  next
    case (Cons t ts)
    with Cons.prems Cons.IH show ?thesis
      using split_path_append[of s "join ''/'' segs"]
      by (simp add: split_path_no_separator)
  qed
qed

lemma split_path_separator_free: "\<forall>s \<in> set (split_path p). CHR ''/'' \<notin> set s"
  by (induction p) (auto split: list.splits)

lemma normalize_step_clean:
  "clean_segments stack \<Longrightarrow> CHR ''/'' \<notin> set seg \<Longrightarrow> clean_segments (normalize_step stack seg)"
  by (auto simp: normalize_step_def clean_segments_def list_all_iff dest: in_set_butlastD)

lemma foldl_normalize_step_clean:
  "clean_segments stack \<Longrightarrow> \<forall>s \<in> set segs. CHR ''/'' \<notin> set s \<Longrightarrow>
     clean_segments (foldl normalize_step stack segs)"
  by (induction segs arbitrary: stack) (auto simp: normalize_step_clean)

lemma resolved_segments_clean: "clean_segments (resolved_segments cwd p)"
  unfolding resolved_segments_def normalize_segments_def
  by (rule foldl_normalize_step_clean)
    (auto simp: clean_segments_def split_path_separator_free)

lemma path_resolve_segments: "path_resolve cwd p = ''/'' @ join ''/'' (resolved_segments cwd p)"
  by (simp add: path_resolve_def resolved_segments_def Let_def)

lemma join_clean_nonempty: "clean_segments segs \<Longrightarrow> segs \<noteq> [] \<Longrightarrow> join ''/'' segs \<noteq> []"
  by (cases segs; cases "tl segs") (auto simp: clean_segments_def)

lemma join_clean_head:
  "clean_segments segs \<Longrightarrow> segs \<noteq> [] \<Longrightarrow> hd (join ''/'' segs) \<noteq> CHR ''/''"
  by (cases segs; cases "tl segs"; cases "hd segs") (auto simp: clean_segments_def)

lemma split_path_join_clean:
  "clean_segments segs \<Longrightarrow> segs \<noteq> [] \<Longrightarrow> split_path (join ''/'' segs) = segs"
  by (rule split_path_join) (auto simp: clean_segments_def list_all_iff)

lemma join_clean_inject:
  assumes a: "clean_segments a" and b: "clean_segments b" and eq: "join ''/'' a = join ''/'' b"
  shows "a = b"
proof (cases "a = []")
  case True
  then have "join ''/'' b = []"
    using eq by simp
  with b have "b = []"
    using join_clean_nonempty[of b] by blast
  with True show ?thesis by simp
next
  case False
  with a have "join ''/'' a \<noteq> []"
    by (rule join_clean_nonempty)
  then have "join ''/'' b \<noteq> []"
    unfolding eq .
  then have nb: "b \<noteq> []"
    by auto
  have "a = split_path (join ''/'' a)"
    using split_path_join_clean[OF a False] by (rule sym)
  also have "\<dots> = split_path (join ''/'' b)"
    unfolding eq ..
  also have "\<dots> = b"
    using b nb by (rule split_path_join_clean)
  finally show ?thesis .
qed

lemma prefix_join_clean:
  assumes a: "clean_segments a" and b: "clean_segments b" and ne: "a \<noteq> []"
  shows "prefix (join ''/'' a @ ''/'') (join ''/'' b) \<longleftrightarrow> strict_prefix a b"
proof
  assume "prefix (join ''/'' a @ ''/'') (join ''/'' b)"
  then obtain r where r: "join ''/'' b = join ''/'' a @ CHR ''/'' # r"
    by (auto simp: prefix_def)
  then have "b \<noteq> []" by auto
  with b have "split_path (join ''/'' b) = b"
    by (rule split_path_join_clean)
  moreover have "split_path (join ''/'' a @ CHR ''/'' # r) = a @ split_path r"
    using split_path_join_clean[OF a ne] by (simp add: split_path_append)
  ultimately have "b = a @ split_path r"
    using r by simp
  then show "strict_prefix a b"
    using split_path_nonempty[of r] by (auto simp: strict_prefix_def)
next
  assume "strict_prefix a b"
  then obtain c where c: "b = a @ c" "c \<noteq> []"
    by (auto simp: strict_prefix_def prefix_def)
  then have "join ''/'' b = join ''/'' a @ ''/'' @ join ''/'' c"
    using ne by (simp add: join_append)
  then show "prefix (join ''/'' a @ ''/'') (join ''/'' b)"
    by simp
qed

section \<open>Properties of the path check\<close>

lemma validatePathWithinBase_segments:
  "(\<exists>e. validatePathWithinBase cwd basePath targetPath errorMessage = Inl e)
     \<longleftrightarrow> (if resolved_segments cwd basePath = [] then resolved_segments cwd targetPath \<noteq> []
          else \<not> prefix (resolved_segments cwd basePath) (resolved_segments cwd targetPath))"
proof -
  define a where "a = resolved_segments cwd basePath"
  define b where "b = resolved_segments cwd targetPath"
  have ca: "clean_segments a" and cb: "clean_segments b"
    by (simp_all add: a_def b_def resolved_segments_clean)
  have throws: "(\<exists>e. validatePathWithinBase cwd basePath targetPath errorMessage = Inl e)
      \<longleftrightarrow> \<not> prefix (''/'' @ join ''/'' a @ ''/'') (''/'' @ join ''/'' b)
          \<and> join ''/'' b \<noteq> join ''/'' a"
    by (simp add: validatePathWithinBase_def Let_def path_resolve_segments path_sep_def
        a_def b_def)
  have eq: "join ''/'' b = join ''/'' a \<longleftrightarrow> b = a"
    using join_clean_inject[OF cb ca] by auto
  show ?thesis
  proof (cases "a = []")
    case True
    have "\<not> prefix ''/'' (join ''/'' b)"
    proof (cases "b = []")
      case True
      then show ?thesis by simp
    next
      case False
      with cb have "join ''/'' b \<noteq> []" and "hd (join ''/'' b) \<noteq> CHR ''/''"
        by (simp_all add: join_clean_nonempty join_clean_head)
      then show ?thesis
        by (cases "join ''/'' b") auto
    qed
    with True show ?thesis
      unfolding throws eq a_def[symmetric] b_def[symmetric] by auto
  next
    case False
    have "prefix (''/'' @ join ''/'' a @ ''/'') (''/'' @ join ''/'' b) \<longleftrightarrow> strict_prefix a b"
      using prefix_join_clean[OF ca cb False] by simp
    with False show ?thesis
      unfolding throws eq a_def[symmetric] b_def[symmetric]
      by (auto simp: strict_prefix_def)
  qed
qed

lemma prefix_separator_iff:
  "prefix (b @ [c]) t \<longleftrightarrow> length b < length t \<and> take (length b) t = b \<and> t ! length b = c"
proof
  assume "prefix (b @ [c]) t"
  then obtain r where "t = (b @ [c]) @ r"
    by (auto simp: prefix_def)
  then show "length b < length t \<and> take (length b) t = b \<and> t ! length b = c"
    by (simp add: nth_append)
next
  assume a: "length b < length t \<and> take (length b) t = b \<and> t ! length b = c"
  then have "t = take (length b) t @ t ! length b # drop (Suc (length b)) t"
    by (intro id_take_nth_drop) simp
  with a have "t = (b @ [c]) @ drop (Suc (length b)) t"
    by simp
  then show "prefix (b @ [c]) t"
    by (metis prefixI)
qed

text \<open>
  C10. \<^verbatim>\<open>validatePathWithinBase\<close> throws exactly when the resolved target is neither the
  resolved base nor strictly inside it at a separator boundary. The base itself is
  accepted; a target whose resolved path extends the resolved base by characters that do
  not start with the separator is rejected, as is \<open>/a/bc\<close> for the base \<open>/a/b\<close>. In terms
  of directories: under a base other than the root, the target is rejected exactly when the
  segments of the resolved base are not a prefix of the segments of the resolved target,
  that is when the target neither is the base directory nor lies below it; under the root
  as base every target but the root itself is rejected, as no resolved path begins with two
  separators.
\<close>

theorem validatePathWithinBase_throws_iff:
  "((\<exists>e. validatePathWithinBase cwd basePath targetPath errorMessage = Inl e)
       \<longleftrightarrow> (path_resolve cwd targetPath \<noteq> path_resolve cwd basePath
            \<and> \<not> strictly_inside (path_resolve cwd basePath) (path_resolve cwd targetPath)))
   \<and> validatePathWithinBase cwd basePath basePath errorMessage = Inr ()
   \<and> (\<forall>ext. ext \<noteq> [] \<and> hd ext \<noteq> CHR ''/''
          \<and> path_resolve cwd targetPath = path_resolve cwd basePath @ ext
        \<longrightarrow> (\<exists>e. validatePathWithinBase cwd basePath targetPath errorMessage = Inl e))
   \<and> (\<exists>e. validatePathWithinBase cwd ''/a/b'' ''/a/bc'' errorMessage = Inl e)
   \<and> ((\<exists>e. validatePathWithinBase cwd basePath targetPath errorMessage = Inl e)
       \<longleftrightarrow> (if resolved_segments cwd basePath = [] then resolved_segments cwd targetPath \<noteq> []
            else \<not> prefix (resolved_segments cwd basePath) (resolved_segments cwd targetPath)))"
proof (intro conjI allI impI)
  show "(\<exists>e. validatePathWithinBase cwd basePath targetPath errorMessage = Inl e)
       \<longleftrightarrow> (path_resolve cwd targetPath \<noteq> path_resolve cwd basePath
            \<and> \<not> strictly_inside (path_resolve cwd basePath) (path_resolve cwd targetPath))"
    unfolding validatePathWithinBase_def Let_def strictly_inside_def path_sep_def
      prefix_separator_iff
    by auto
next
  show "validatePathWithinBase cwd basePath basePath errorMessage = Inr ()"
    by (simp add: validatePathWithinBase_def Let_def)
next
  fix ext
  assume a: "ext \<noteq> [] \<and> hd ext \<noteq> CHR ''/''
      \<and> path_resolve cwd targetPath = path_resolve cwd basePath @ ext"
  then obtain c cs where ext: "ext = c # cs" and c: "c \<noteq> CHR ''/''"
    by (cases ext) auto
  from a ext c show "\<exists>e. validatePathWithinBase cwd basePath targetPath errorMessage = Inl e"
    by (simp add: validatePathWithinBase_def Let_def path_sep_def)
next
  have b: "path_resolve cwd ''/a/b'' = ''/a/b''" and t: "path_resolve cwd ''/a/bc'' = ''/a/bc''"
    by (simp_all add: path_resolve_def normalize_segments_def normalize_step_def)
  show "\<exists>e. validatePathWithinBase cwd ''/a/b'' ''/a/bc'' errorMessage = Inl e"
    by (simp add: validatePathWithinBase_def Let_def b t path_sep_def)
next
  show "(\<exists>e. validatePathWithinBase cwd basePath targetPath errorMessage = Inl e)
       \<longleftrightarrow> (if resolved_segments cwd basePath = [] then resolved_segments cwd targetPath \<noteq> []
            else \<not> prefix (resolved_segments cwd basePath) (resolved_segments cwd targetPath))"
    by (rule validatePathWithinBase_segments)
qed

theorem validatePathWithinBase_throws_iff_witness:
  "validatePathWithinBase ''/home/u'' ''/a/b'' ''/a/b/c/../d'' None = Inr ()
   \<and> strictly_inside (path_resolve ''/home/u'' ''/a/b'') (path_resolve ''/home/u'' ''/a/b/c/../d'')
   \<and> path_resolve ''/home/u'' ''/a/x/../bcd'' = path_resolve ''/home/u'' ''/a/b'' @ ''cd''
   \<and> (\<exists>e. validatePathWithinBase ''/home/u'' ''/a/b'' ''/a/x/../bcd'' None = Inl e)
   \<and> resolved_segments ''/home/u'' ''/'' = []
   \<and> resolved_segments ''/home/u'' ''/a/b'' = [''a'', ''b'']
   \<and> (\<exists>e. validatePathWithinBase ''/home/u'' ''/'' ''/a/b'' None = Inl e)"
proof -
  define cwd where "cwd = ''/home/u''"
  define top where "top = ''/''"
  define base where "base = ''/a/b''"
  define inner where "inner = ''/a/b/c/../d''"
  define sibling where "sibling = ''/a/x/../bcd''"
  define ext where "ext = ''cd''"
  have acc: "validatePathWithinBase cwd base inner None = Inr ()"
    unfolding cwd_def base_def inner_def by code_simp
  have e: "path_resolve cwd sibling = path_resolve cwd base @ ext"
    unfolding cwd_def base_def sibling_def ext_def by code_simp
  have ne: "path_resolve cwd inner \<noteq> path_resolve cwd base"
    unfolding cwd_def base_def inner_def by code_simp
  have x: "ext \<noteq> [] \<and> hd ext \<noteq> CHR ''/''"
    unfolding ext_def by simp
  note thm1 = validatePathWithinBase_throws_iff[of cwd base inner None]
  note thm2 = validatePathWithinBase_throws_iff[of cwd base sibling None]
  from thm1 have "(\<exists>e. validatePathWithinBase cwd base inner None = Inl e)
       \<longleftrightarrow> (path_resolve cwd inner \<noteq> path_resolve cwd base
            \<and> \<not> strictly_inside (path_resolve cwd base) (path_resolve cwd inner))"
    by (rule conjunct1)
  with acc ne have inside: "strictly_inside (path_resolve cwd base) (path_resolve cwd inner)"
    by simp
  from thm2 have "\<forall>ext. ext \<noteq> [] \<and> hd ext \<noteq> CHR ''/''
          \<and> path_resolve cwd sibling = path_resolve cwd base @ ext
        \<longrightarrow> (\<exists>e. validatePathWithinBase cwd base sibling None = Inl e)"
    by (elim conjE)
  with x e have rej: "\<exists>e. validatePathWithinBase cwd base sibling None = Inl e"
    by blast
  have st: "resolved_segments cwd top = []"
    unfolding cwd_def top_def by code_simp
  have sb: "resolved_segments cwd base = [''a'', ''b'']"
    unfolding cwd_def base_def by code_simp
  note thm3 = validatePathWithinBase_throws_iff[of cwd top base None]
  from thm3 have "(\<exists>e. validatePathWithinBase cwd top base None = Inl e)
       \<longleftrightarrow> (if resolved_segments cwd top = [] then resolved_segments cwd base \<noteq> []
            else \<not> prefix (resolved_segments cwd top) (resolved_segments cwd base))"
    by (elim conjE)
  then have below_top: "\<exists>e. validatePathWithinBase cwd top base None = Inl e"
    unfolding st sb by simp
  from acc inside e rej st sb below_top show ?thesis
    unfolding cwd_def base_def inner_def sibling_def ext_def top_def by (intro conjI)
qed

section \<open>Properties of the metadata store\<close>

lemma truthy_present:
  "get_property md k = Inr v \<Longrightarrow> truthy v \<Longrightarrow> \<not> missing_or_empty md k"
  by (cases v) (auto simp: missing_or_empty_def)

lemma loadMetadata_try_Some:
  assumes "loadMetadata_try M fs parse dir = Inr (Some md)"
  shows "pathExists fs (path_join dir M)
    \<and> (\<exists>content. readFile fs (path_join dir M) = Inr content \<and> parse content = Inr md)
    \<and> (\<forall>k \<in> set required_fields. \<not> missing_or_empty md k)"
  using assms unfolding loadMetadata_try_def Let_def required_fields_def
  by (auto split: if_splits sum.splits dest: truthy_present)

text \<open>
  C3. \<^verbatim>\<open>loadMetadata\<close> never throws. It returns \<^verbatim>\<open>null\<close> when the metadata file does
  not exist, when reading it fails, when \<^verbatim>\<open>JSON.parse\<close> rejects its content, and when
  one of \<open>remote\<close>, \<open>type\<close>, \<open>lastSync\<close>, \<open>contentHash\<close> is missing or empty. When it
  returns a record, the file exists, the record is what the content parses to, and none of
  the four fields is missing or empty.
\<close>

theorem loadMetadata_absent_or_valid:
  "(\<exists>r. loadMetadata M fs parse dir = Inr r)
   \<and> (\<not> pathExists fs (path_join dir M) \<longrightarrow> loadMetadata M fs parse dir = Inr None)
   \<and> ((\<exists>e. readFile fs (path_join dir M) = Inl e) \<longrightarrow> loadMetadata M fs parse dir = Inr None)
   \<and> (\<forall>content. readFile fs (path_join dir M) = Inr content \<and> (\<exists>e. parse content = Inl e)
         \<longrightarrow> loadMetadata M fs parse dir = Inr None)
   \<and> (\<forall>content md. readFile fs (path_join dir M) = Inr content \<and> parse content = Inr md
          \<and> (\<exists>k \<in> set required_fields. missing_or_empty md k)
         \<longrightarrow> loadMetadata M fs parse dir = Inr None)
   \<and> (\<forall>md. loadMetadata M fs parse dir = Inr (Some md) \<longrightarrow>
          pathExists fs (path_join dir M)
        \<and> (\<exists>content. readFile fs (path_join dir M) = Inr content \<and> parse content = Inr md)
        \<and> (\<forall>k \<in> set required_fields. \<not> missing_or_empty md k))"
proof (intro conjI allI impI)
  show "\<exists>r. loadMetadata M fs parse dir = Inr r"
    by (simp add: loadMetadata_def split: sum.splits)
next
  assume "\<not> pathExists fs (path_join dir M)"
  then show "loadMetadata M fs parse dir = Inr None"
    by (simp add: loadMetadata_def loadMetadata_try_def Let_def)
next
  assume "\<exists>e. readFile fs (path_join dir M) = Inl e"
  then show "loadMetadata M fs parse dir = Inr None"
    by (auto simp: loadMetadata_def loadMetadata_try_def Let_def)
next
  fix content
  assume "readFile fs (path_join dir M) = Inr content \<and> (\<exists>e. parse content = Inl e)"
  then show "loadMetadata M fs parse dir = Inr None"
    by (auto simp: loadMetadata_def loadMetadata_try_def Let_def)
next
  fix content md
  assume a: "readFile fs (path_join dir M) = Inr content \<and> parse content = Inr md
      \<and> (\<exists>k \<in> set required_fields. missing_or_empty md k)"
  show "loadMetadata M fs parse dir = Inr None"
  proof (cases "loadMetadata_try M fs parse dir")
    case (Inl e)
    then show ?thesis by (simp add: loadMetadata_def)
  next
    case (Inr r)
    show ?thesis
    proof (cases r)
      case None
      with Inr show ?thesis by (simp add: loadMetadata_def)
    next
      case (Some md')
      with Inr loadMetadata_try_Some[of M fs parse dir md'] a show ?thesis
        by auto
    qed
  qed
next
  fix md
  assume "loadMetadata M fs parse dir = Inr (Some md)"
  then have t: "loadMetadata_try M fs parse dir = Inr (Some md)"
    by (simp add: loadMetadata_def split: sum.splits)
  from loadMetadata_try_Some[OF t]
  show "pathExists fs (path_join dir M)"
    and "\<exists>content. readFile fs (path_join dir M) = Inr content \<and> parse content = Inr md"
    and "\<forall>k \<in> set required_fields. \<not> missing_or_empty md k"
    by blast+
qed

theorem loadMetadata_absent_or_valid_witness:
  "loadMetadata ''.meta'' (meta_file good_text) example_JSON_parse ''/s/a'' = Inr (Some good_json)
   \<and> \<not> missing_or_empty good_json ''remote'' \<and> \<not> missing_or_empty good_json ''type''
   \<and> \<not> missing_or_empty good_json ''lastSync''
   \<and> \<not> missing_or_empty good_json ''contentHash''
   \<and> loadMetadata ''.meta'' no_meta_file example_JSON_parse ''/s/a'' = Inr None
   \<and> loadMetadata ''.meta'' unreadable_meta_file example_JSON_parse ''/s/a'' = Inr None
   \<and> loadMetadata ''.meta'' (meta_file ''{'') example_JSON_parse ''/s/a'' = Inr None
   \<and> missing_or_empty empty_hash_json ''contentHash''
   \<and> loadMetadata ''.meta'' (meta_file empty_hash_text) example_JSON_parse ''/s/a'' = Inr None"
proof -
  define M where "M = ''.meta''"
  define dir where "dir = ''/s/a''"
  define bad where "bad = ''{''"
  have p: "path_join dir M = ''/s/a/.meta''"
    unfolding M_def dir_def by code_simp
  have good: "loadMetadata M (meta_file good_text) example_JSON_parse dir = Inr (Some good_json)"
    unfolding M_def dir_def by code_simp
  have missing: "\<not> pathExists no_meta_file (path_join dir M)"
    by (simp add: no_meta_file_def)
  have unreadable: "\<exists>e. readFile unreadable_meta_file (path_join dir M) = Inl e"
    by (simp add: unreadable_meta_file_def)
  have malformed: "readFile (meta_file bad) (path_join dir M) = Inr bad
      \<and> (\<exists>e. example_JSON_parse bad = Inl e)"
    unfolding p by (simp add: meta_file_def example_JSON_parse_def bad_def good_text_def
        empty_hash_text_def)
  have k: "''contentHash'' \<in> set required_fields"
    by (simp add: required_fields_def)
  have e: "missing_or_empty empty_hash_json ''contentHash''"
    by code_simp
  have ne: "empty_hash_text \<noteq> good_text"
    by (simp add: good_text_def empty_hash_text_def)
  have empty: "readFile (meta_file empty_hash_text) (path_join dir M) = Inr empty_hash_text
      \<and> example_JSON_parse empty_hash_text = Inr empty_hash_json
      \<and> (\<exists>k \<in> set required_fields. missing_or_empty empty_hash_json k)"
    unfolding p using k e ne by (auto simp: meta_file_def example_JSON_parse_def)
  from loadMetadata_absent_or_valid[of M "meta_file good_text" example_JSON_parse dir] good
  have "\<forall>k \<in> set required_fields. \<not> missing_or_empty good_json k"
    by blast
  then have r1: "\<not> missing_or_empty good_json ''remote'' \<and> \<not> missing_or_empty good_json ''type''
      \<and> \<not> missing_or_empty good_json ''lastSync''
      \<and> \<not> missing_or_empty good_json ''contentHash''"
    by (simp add: required_fields_def)
  from loadMetadata_absent_or_valid[of M no_meta_file example_JSON_parse dir] missing
  have r2: "loadMetadata M no_meta_file example_JSON_parse dir = Inr None"
    by blast
  from loadMetadata_absent_or_valid[of M unreadable_meta_file example_JSON_parse dir] unreadable
  have r3: "loadMetadata M unreadable_meta_file example_JSON_parse dir = Inr None"
    by blast
  from loadMetadata_absent_or_valid[of M "meta_file bad" example_JSON_parse dir] malformed
  have r4: "loadMetadata M (meta_file bad) example_JSON_parse dir = Inr None"
    by blast
  from loadMetadata_absent_or_valid[of M "meta_file empty_hash_text" example_JSON_parse dir] empty
  have r5: "loadMetadata M (meta_file empty_hash_text) example_JSON_parse dir = Inr None"
    by blast
  from good r1 r2 r3 r4 e r5 show ?thesis
    unfolding M_def dir_def bad_def by blast
qed

section \<open>Properties of the content hasher\<close>

subsection \<open>Paths made of file names\<close>












subsection \<open>The walk of the tree\<close>



subsection \<open>Sorting paths with a common prefix\<close>




subsection \<open>The loop\<close>




lemma calculateContentHash_loop_throws_iff:
  "(\<exists>e. calculateContentHash_loop sha M cwd skillDir tree files hash = Inl e)
   \<longleftrightarrow> (\<exists>file \<in> set files. path_relative cwd skillDir file \<noteq> M
          \<and> (\<exists>e. createReadStream cwd skillDir tree file = Inl e))"
proof (induction files arbitrary: hash)
  case Nil
  then show ?case by simp
next
  case (Cons f files)
  show ?case
  proof (cases "path_relative cwd skillDir f = M")
    case True
    then show ?thesis using Cons.IH by simp
  next
    case False
    show ?thesis
    proof (cases "createReadStream cwd skillDir tree f")
      case (Inl e)
      with False show ?thesis by (auto simp: hashFile_def)
    next
      case (Inr content)
      with False show ?thesis using Cons.IH by (simp add: hashFile_def)
    qed
  qed
qed

text \<open>
  C5, as amended. \<^verbatim>\<open>calculateContentHash\<close> throws exactly when a collected file other
  than the metadata file cannot be read, and what it throws is a \<^verbatim>\<open>SkillManagerError\<close>
  with the code \<^verbatim>\<open>FILE_SYSTEM_ERROR\<close>; so no digest is computed over a file that could
  not be read. A directory that cannot be listed (or a path that is not a directory) makes
  \<^verbatim>\<open>getAllFiles\<close> return no files for it, and hashing goes on without an error.
\<close>

theorem calculateContentHash_read_errors:
  "((\<exists>e. calculateContentHash sha M cwd skillDir tree = Inl e)
      \<longleftrightarrow> (\<exists>file \<in> set (getAllFiles tree skillDir). path_relative cwd skillDir file \<noteq> M
             \<and> (\<exists>e. createReadStream cwd skillDir tree file = Inl e)))
   \<and> (\<forall>e. calculateContentHash sha M cwd skillDir tree = Inl e
          \<longrightarrow> isSkillManagerError e \<and> code_of e = Some FILE_SYSTEM_ERROR)
   \<and> (\<forall>entries dir. getAllFiles (Directory False entries) dir = [])
   \<and> (\<forall>readable content dir. getAllFiles (File readable content) dir = [])"
proof (intro conjI allI impI)
  have "(\<exists>e. calculateContentHash sha M cwd skillDir tree = Inl e)
      \<longleftrightarrow> (\<exists>e. calculateContentHash_loop sha M cwd skillDir tree
                   (sort (getAllFiles tree skillDir)) [] = Inl e)"
    by (simp add: calculateContentHash_def Let_def split: sum.splits)
  then show "(\<exists>e. calculateContentHash sha M cwd skillDir tree = Inl e)
      \<longleftrightarrow> (\<exists>file \<in> set (getAllFiles tree skillDir). path_relative cwd skillDir file \<noteq> M
             \<and> (\<exists>e. createReadStream cwd skillDir tree file = Inl e))"
    by (simp add: calculateContentHash_loop_throws_iff)
next
  fix e
  assume "calculateContentHash sha M cwd skillDir tree = Inl e"
  then show "isSkillManagerError e" and "code_of e = Some FILE_SYSTEM_ERROR"
    by (auto simp: calculateContentHash_def Let_def wrapError_def split: sum.splits)
qed simp_all

theorem calculateContentHash_read_errors_witness:
  "getAllFiles unreadable_tree ''/s/a'' = [''/s/a/a.md'', ''/s/a/b.md'']
   \<and> path_relative ''/cwd'' ''/s/a'' ''/s/a/b.md'' \<noteq> ''.meta''
   \<and> createReadStream ''/cwd'' ''/s/a'' unreadable_tree ''/s/a/b.md''
       = Inl (JsError ''EACCES: permission denied'')
   \<and> (\<exists>e. calculateContentHash example_digest ''.meta'' ''/cwd'' ''/s/a'' unreadable_tree = Inl e
          \<and> isSkillManagerError e \<and> code_of e = Some FILE_SYSTEM_ERROR)"
proof -
  define M where "M = ''.meta''"
  define cwd where "cwd = ''/cwd''"
  define skillDir where "skillDir = ''/s/a''"
  define bmd where "bmd = ''/s/a/b.md''"
  define files where "files = [''/s/a/a.md'', ''/s/a/b.md'']"
  define err where "err = JsError ''EACCES: permission denied''"
  have g: "getAllFiles unreadable_tree skillDir = files"
    unfolding skillDir_def files_def by code_simp
  have r: "path_relative cwd skillDir bmd \<noteq> M"
    unfolding cwd_def skillDir_def bmd_def M_def by code_simp
  have c: "createReadStream cwd skillDir unreadable_tree bmd = Inl err"
    unfolding cwd_def skillDir_def bmd_def err_def by code_simp
  have m: "bmd \<in> set (getAllFiles unreadable_tree skillDir)"
    unfolding g by (simp add: files_def bmd_def)
  from calculateContentHash_read_errors[of example_digest M cwd skillDir unreadable_tree] m r c
  have "\<exists>e. calculateContentHash example_digest M cwd skillDir unreadable_tree = Inl e
          \<and> isSkillManagerError e \<and> code_of e = Some FILE_SYSTEM_ERROR"
    by blast
  with g r c show ?thesis
    unfolding M_def cwd_def skillDir_def bmd_def files_def err_def by (intro conjI)
qed

text \<open>
  C5 as stated fails for a directory listing error: the directory \<open>locked\<close> cannot be
  listed, \<^verbatim>\<open>getAllFiles\<close> returns nothing for it, and \<^verbatim>\<open>calculateContentHash\<close>
  succeeds with a digest over \<open>a.md\<close> alone, which is not the digest of the whole
  directory.
\<close>

theorem calculateContentHash_listing_error_counterexample:
  "getAllFiles (Directory False [(''f'', File True ''F'')]) ''/s/a/locked'' = []
   \<and> calculateContentHash example_digest ''.meta'' ''/cwd'' ''/s/a'' locked_tree
       = Inr ''<a.md<A>>''
   \<and> reference_hash example_digest ''.meta'' locked_tree = ''<a.md<A>locked/f<F>>''"
  by code_simp

section \<open>Properties of the symlink fan-out\<close>

lemma follow_real:
  "fs p = Some e \<Longrightarrow> (\<forall>l. e \<noteq> SymbolicLink l) \<Longrightarrow> follow fs n p = Some e"
  by (cases n; cases e) auto

lemma ensureDir_segments_keeps:
  "ensureDir_segments fs upper below = (r, fs') \<Longrightarrow> fs p = Some e \<Longrightarrow> fs' p = Some e"
proof (induction below arbitrary: fs upper)
  case Nil
  then show ?case by simp
next
  case (Cons seg below)
  let ?q = "absolute_path (upper @ [seg])"
  show ?case
  proof (cases "follow fs 40 ?q")
    case None
    show ?thesis
    proof (cases "fs ?q = None")
      case True
      with None Cons.prems
      have "ensureDir_segments (fs(?q \<mapsto> RealDirectory)) (upper @ [seg]) below = (r, fs')"
        by (simp add: Let_def)
      moreover from True Cons.prems(2) have "(fs(?q \<mapsto> RealDirectory)) p = Some e"
        by auto
      ultimately show ?thesis by (rule Cons.IH)
    next
      case False
      with None Cons.prems show ?thesis by (auto simp: Let_def)
    qed
  next
    case (Some k)
    show ?thesis
    proof (cases k)
      case RealDirectory
      with Some Cons.prems have "ensureDir_segments fs (upper @ [seg]) below = (r, fs')"
        by (simp add: Let_def)
      then show ?thesis using Cons.prems(2) by (rule Cons.IH)
    qed (use Some Cons.prems in \<open>auto simp: Let_def\<close>)
  qed
qed

lemma ensureDir_keeps:
  "ensureDir fs cwd dir = (r, fs') \<Longrightarrow> fs p = Some e \<Longrightarrow> fs' p = Some e"
  unfolding ensureDir_def by (rule ensureDir_segments_keeps)

lemma createSymlink_try_real:
  assumes real: "is_real (lstat (disk w) cwd target)"
  shows "lstat (disk (snd (createSymlink_try cwd home w source target skill))) cwd target
           = lstat (disk w) cwd target
    \<and> (fst (createSymlink_try cwd home w source target skill) = Inr ()
         \<longrightarrow> console (snd (createSymlink_try cwd home w source target skill))
               = console w @ [not_a_symlink_warning target])
    \<and> (fs_pathExists (disk w) cwd source
         \<and> (\<exists>paths. getAllAgentGlobalPaths home None = Inr paths
               \<and> list_ex (\<lambda>agentPath. validatePathWithinBase cwd agentPath target None = Inr ()) paths)
         \<and> fst (ensureDir (disk w) cwd (path_dirname target)) = Inr ()
         \<longrightarrow> fst (createSymlink_try cwd home w source target skill) = Inr ())"
proof -
  let ?t = "path_resolve cwd target"
  from real obtain e where e: "disk w ?t = Some e" and ne: "\<forall>l. e \<noteq> SymbolicLink l"
    and cases_e: "e = RegularFile \<or> e = RealDirectory"
    by (auto simp: lstat_def is_real_def)
  obtain r fs1 where ed: "ensureDir (disk w) cwd (path_dirname target) = (r, fs1)"
    by (cases "ensureDir (disk w) cwd (path_dirname target)")
  have fs1: "fs1 ?t = Some e"
    using ed e by (rule ensureDir_keeps)
  have ex1: "fs_pathExists fs1 cwd target"
    using follow_real[of fs1 ?t e 40] fs1 ne by (simp add: fs_pathExists_def stat_def)
  have l1: "lstat fs1 cwd target = Some e"
    by (simp add: lstat_def fs1)
  show ?thesis
    using cases_e e
    by (auto simp: createSymlink_try_def Let_def ed ex1 l1 lstat_def fs1
        split: sum.splits)
qed

text \<open>
  C7. When a real file or a real directory lies at the target path, \<^verbatim>\<open>createSymlink\<close>
  leaves what lies there unchanged, so no symbolic link is created over it; when it returns
  without throwing it has printed the warning, and it does return without throwing when the
  source exists, the target is inside a consumer directory and the directory of the target
  can be ensured. Hence an entry at the target path that is gone or replaced afterwards was
  a symbolic link.
\<close>

theorem createSymlink_keeps_real_entry:
  "(is_real (lstat (disk w) cwd target) \<longrightarrow>
       lstat (disk (snd (createSymlink cwd home w source target skill))) cwd target
         = lstat (disk w) cwd target
     \<and> (fst (createSymlink cwd home w source target skill) = Inr ()
          \<longrightarrow> console (snd (createSymlink cwd home w source target skill))
                = console w @ [not_a_symlink_warning target])
     \<and> (fs_pathExists (disk w) cwd source
          \<and> (\<exists>paths. getAllAgentGlobalPaths home None = Inr paths
                \<and> list_ex (\<lambda>agentPath. validatePathWithinBase cwd agentPath target None = Inr ())
                      paths)
          \<and> fst (ensureDir (disk w) cwd (path_dirname target)) = Inr ()
          \<longrightarrow> fst (createSymlink cwd home w source target skill) = Inr ()))
   \<and> (\<forall>e. lstat (disk w) cwd target = Some e
          \<and> lstat (disk (snd (createSymlink cwd home w source target skill))) cwd target
               \<noteq> Some e
        \<longrightarrow> (\<exists>l. e = SymbolicLink l))"
proof -
  let ?body = "createSymlink_try cwd home w source target skill"
  let ?run = "createSymlink cwd home w source target skill"
  have s: "snd ?run = snd ?body"
    by (cases ?body) (auto simp: createSymlink_def split: sum.splits)
  have f: "fst ?run = Inr () \<longleftrightarrow> fst ?body = Inr ()"
    by (cases ?body) (auto simp: createSymlink_def split: sum.splits)
  have real: "is_real (lstat (disk w) cwd target) \<longrightarrow>
       lstat (disk (snd ?run)) cwd target = lstat (disk w) cwd target
     \<and> (fst ?run = Inr () \<longrightarrow> console (snd ?run) = console w @ [not_a_symlink_warning target])
     \<and> (fs_pathExists (disk w) cwd source
          \<and> (\<exists>paths. getAllAgentGlobalPaths home None = Inr paths
                \<and> list_ex (\<lambda>agentPath. validatePathWithinBase cwd agentPath target None = Inr ())
                      paths)
          \<and> fst (ensureDir (disk w) cwd (path_dirname target)) = Inr ()
          \<longrightarrow> fst ?run = Inr ())"
    unfolding s f using createSymlink_try_real[of w cwd target home source skill] by blast
  have gone: "\<exists>l. e = SymbolicLink l"
    if "lstat (disk w) cwd target = Some e \<and> lstat (disk (snd ?run)) cwd target \<noteq> Some e" for e
  proof (cases e)
    case RegularFile
    with that real show ?thesis by (simp add: is_real_def)
  next
    case RealDirectory
    with that real show ?thesis by (simp add: is_real_def)
  next
    case (SymbolicLink l)
    then show ?thesis by simp
  qed
  from real gone show ?thesis by blast
qed

theorem createSymlink_keeps_real_entry_witness:
  "is_real (lstat (disk example_world) ''/'' ''/home/u/.claude/skills/a'')
   \<and> fs_pathExists (disk example_world) ''/'' ''/home/u/.agents/skills/a''
   \<and> fst (ensureDir (disk example_world) ''/'' (path_dirname ''/home/u/.claude/skills/a'')) = Inr ()
   \<and> fst (createSymlink ''/'' ''/home/u'' example_world ''/home/u/.agents/skills/a''
            ''/home/u/.claude/skills/a'' ''a'') = Inr ()
   \<and> console (snd (createSymlink ''/'' ''/home/u'' example_world ''/home/u/.agents/skills/a''
            ''/home/u/.claude/skills/a'' ''a''))
       = [not_a_symlink_warning ''/home/u/.claude/skills/a'']
   \<and> lstat (disk (snd (createSymlink ''/'' ''/home/u'' example_world ''/home/u/.agents/skills/a''
            ''/home/u/.claude/skills/a'' ''a''))) ''/'' ''/home/u/.claude/skills/a''
       = Some RegularFile
   \<and> lstat (disk example_world) ''/'' ''/home/u/.claude/skills/b''
       = Some (SymbolicLink ''/home/u/.agents/skills/old'')
   \<and> lstat (disk (snd (createSymlink ''/'' ''/home/u'' example_world ''/home/u/.agents/skills/a''
            ''/home/u/.claude/skills/b'' ''a''))) ''/'' ''/home/u/.claude/skills/b''
       = Some (SymbolicLink ''/home/u/.agents/skills/a'')"
proof -
  define cwd where "cwd = ''/''"
  define home where "home = ''/home/u''"
  define source where "source = ''/home/u/.agents/skills/a''"
  define a where "a = ''/home/u/.claude/skills/a''"
  define b where "b = ''/home/u/.claude/skills/b''"
  define name where "name = ''a''"
  define w where "w = example_world"
  have real: "lstat (disk w) cwd a = Some RegularFile"
    unfolding w_def cwd_def a_def by code_simp
  then have isr: "is_real (lstat (disk w) cwd a)"
    by (simp add: is_real_def)
  have src: "fs_pathExists (disk w) cwd source"
    unfolding w_def cwd_def source_def by code_simp
  have valid: "\<exists>paths. getAllAgentGlobalPaths home None = Inr paths
      \<and> list_ex (\<lambda>agentPath. validatePathWithinBase cwd agentPath a None = Inr ()) paths"
  proof -
    have "(case getAllAgentGlobalPaths home None of
             Inr paths \<Rightarrow>
               list_ex (\<lambda>agentPath. validatePathWithinBase cwd agentPath a None = Inr ()) paths
           | Inl e \<Rightarrow> False)"
      unfolding home_def cwd_def a_def by code_simp
    then show ?thesis by (auto split: sum.splits)
  qed
  have ens: "fst (ensureDir (disk w) cwd (path_dirname a)) = Inr ()"
    unfolding w_def cwd_def a_def by code_simp
  have old: "lstat (disk w) cwd b = Some (SymbolicLink ''/home/u/.agents/skills/old'')"
    unfolding w_def cwd_def b_def by code_simp
  have new: "lstat (disk (snd (createSymlink cwd home w source b name))) cwd b
      = Some (SymbolicLink source)"
    unfolding w_def cwd_def home_def source_def b_def name_def by code_simp
  have cw: "console w = []"
    unfolding w_def by code_simp
  note inst = createSymlink_keeps_real_entry[of w cwd a home source name]
  from inst isr have kept: "lstat (disk (snd (createSymlink cwd home w source a name))) cwd a
      = lstat (disk w) cwd a"
    by blast
  from inst isr src valid ens have ok: "fst (createSymlink cwd home w source a name) = Inr ()"
    by blast
  from inst isr ok have warned: "console (snd (createSymlink cwd home w source a name))
      = console w @ [not_a_symlink_warning a]"
    by blast
  from warned cw have warned': "console (snd (createSymlink cwd home w source a name))
      = [not_a_symlink_warning a]"
    by simp
  from kept real have kept': "lstat (disk (snd (createSymlink cwd home w source a name))) cwd a
      = Some RegularFile"
    by simp
  from isr src ens ok warned' kept' old new
  have "is_real (lstat (disk w) cwd a)
    \<and> fs_pathExists (disk w) cwd source
    \<and> fst (ensureDir (disk w) cwd (path_dirname a)) = Inr ()
    \<and> fst (createSymlink cwd home w source a name) = Inr ()
    \<and> console (snd (createSymlink cwd home w source a name)) = [not_a_symlink_warning a]
    \<and> lstat (disk (snd (createSymlink cwd home w source a name))) cwd a = Some RegularFile
    \<and> lstat (disk w) cwd b = Some (SymbolicLink ''/home/u/.agents/skills/old'')
    \<and> lstat (disk (snd (createSymlink cwd home w source b name))) cwd b
        = Some (SymbolicLink source)"
    by (intro conjI)
  then show ?thesis
    unfolding cwd_def home_def source_def a_def b_def name_def w_def .
qed

section \<open>Properties of the scheduler and the orchestrator\<close>

lemma pLimit_loop_consistent:
  "consistent items fn st \<Longrightarrow> xs = drop (created st) items \<Longrightarrow>
     consistent items fn (pLimit_loop c st xs)
     \<and> remaining (pLimit_loop c st xs) = drop (created (pLimit_loop c st xs)) items
     \<and> settled (pLimit_loop c st xs) = settled st
     \<and> (\<forall>rs. suspended (pLimit_loop c st xs) \<noteq> Returned rs)"
proof (induction xs arbitrary: st)
  case Nil
  then show ?case by (auto simp: consistent_def)
next
  case (Cons item xs)
  let ?st1 = "st\<lparr>created := created st + 1,
                   pending := pending st @ [(created st, item)],
                   executing := executing st @ [created st]\<rparr>"
  from Cons.prems(2) have lt: "created st < length items"
    by (metis drop_eq_Nil2 linorder_not_le list.distinct(1))
  from Cons.prems(2) have item: "item = items ! created st" and xs: "xs = drop (created st + 1) items"
    using lt by (metis Cons_nth_drop_Suc list.inject, metis Cons_nth_drop_Suc list.inject Suc_eq_plus1)
  have notin: "created st \<notin> set (settled st)"
    using Cons.prems(1) by (auto simp: consistent_def list_all_iff)
  have c1: "consistent items fn ?st1"
    using Cons.prems(1) lt item notin
    by (auto simp: consistent_def list_all_iff)
  show ?case
  proof (cases "int (length (executing ?st1)) \<ge> c")
    case True
    then have "pLimit_loop c st (item # xs) = ?st1\<lparr>remaining := xs, suspended := AwaitRace (created st)\<rparr>"
      by (simp add: Let_def)
    with c1 xs show ?thesis
      by (auto simp: consistent_def)
  next
    case False
    then have "pLimit_loop c st (item # xs) = pLimit_loop c ?st1 xs"
      by (simp add: Let_def)
    with Cons.IH[of ?st1] c1 xs show ?thesis
      by simp
  qed
qed

lemma step_consistent:
  assumes "consistent items fn st" and "remaining st = drop (created st) items"
    and "step fn c st ev = Some st'"
  shows "consistent items fn st' \<and> remaining st' = drop (created st') items
    \<and> settled st' = settled st @ completions [ev]"
proof (cases ev)
  case (Complete i)
  with assms(3) obtain x where x: "map_of (pending st) i = Some x"
    and st': "st' = st\<lparr>results := results st @ [fn x],
                        pending := filter (\<lambda>(j, x). j \<noteq> i) (pending st),
                        settled := settled st @ [i]\<rparr>"
    by (auto simp: step_def split: option.splits)
  from x have mem: "(i, x) \<in> set (pending st)"
    by (rule map_of_SomeD)
  with assms(1) have i: "i < created st" "x = items ! i" "i \<notin> set (settled st)"
    by (auto simp: consistent_def list_all_iff)
  show ?thesis
    using assms(1,2) i Complete
    by (auto simp: st' consistent_def list_all_iff)
next
  case Resume
  show ?thesis
  proof (cases "suspended st")
    case (AwaitRace promise)
    let ?st1 = "st\<lparr>executing := splice_one (executing st)
                        (findIndex (\<lambda>p. p = promise) (executing st))\<rparr>"
    from assms(3) Resume AwaitRace have st': "st' = pLimit_loop c ?st1 (remaining st)"
      by (auto simp: step_def split: if_splits)
    have "consistent items fn ?st1"
      using assms(1) by (simp add: consistent_def)
    moreover have "remaining st = drop (created ?st1) items"
      using assms(2) by simp
    ultimately show ?thesis
      using pLimit_loop_consistent[of items fn ?st1 "remaining st" c] Resume
      by (simp add: st')
  next
    case AwaitAll
    with assms(3) Resume have "st' = st\<lparr>suspended := Returned (results st)\<rparr>"
      by (auto simp: step_def split: if_splits)
    with assms(1,2) Resume show ?thesis
      by (simp add: consistent_def)
  next
    case (Returned rs)
    with assms(3) Resume show ?thesis
      by (simp add: step_def)
  qed
qed

lemma completions_append: "completions (xs @ ys) = completions xs @ completions ys"
  by (induction xs rule: completions.induct) auto

lemma run_schedule_consistent:
  "consistent items fn st \<Longrightarrow> remaining st = drop (created st) items \<Longrightarrow>
   run_schedule fn c st evs = Some st' \<Longrightarrow>
     consistent items fn st' \<and> remaining st' = drop (created st') items
     \<and> settled st' = settled st @ completions evs"
proof (induction evs arbitrary: st)
  case Nil
  then show ?case by simp
next
  case (Cons ev evs)
  from Cons.prems(3) obtain st1 where s1: "step fn c st ev = Some st1"
    and r: "run_schedule fn c st1 evs = Some st'"
    by (auto split: option.splits)
  from step_consistent[OF Cons.prems(1,2) s1]
  have c1: "consistent items fn st1" and r1: "remaining st1 = drop (created st1) items"
    and s: "settled st1 = settled st @ completions [ev]"
    by auto
  from Cons.IH[OF c1 r1 r] s show ?case
    using completions_append[of "[ev]" evs] by simp
qed

lemma pLimit_start_consistent:
  assumes "st0 = pLimit_start items c"
  shows "consistent items fn st0 \<and> remaining st0 = drop (created st0) items \<and> settled st0 = []"
proof -
  let ?init = "\<lparr>remaining = items, created = 0, executing = [], pending = [], settled = [],
        results = [], suspended = AwaitAll\<rparr>"
  have c0: "consistent items fn ?init"
    by (simp add: consistent_def)
  have d0: "items = drop (created ?init) items"
    by simp
  from pLimit_loop_consistent[OF c0 d0, of c] show ?thesis
    by (simp add: assms pLimit_start_def)
qed

lemma run_schedule_snoc:
  "run_schedule fn c st (evs @ [ev]) =
     (case run_schedule fn c st evs of None \<Rightarrow> None | Some st1 \<Rightarrow> step fn c st1 ev)"
  by (induction evs arbitrary: st) (auto split: option.splits)

lemma step_Resume_Returned:
  assumes "step fn c st Resume = Some st'" and "suspended st' = Returned rs"
    and "\<forall>r. suspended st \<noteq> Returned r"
  shows "suspended st = AwaitAll \<and> rs = results st \<and> settled st' = settled st
     \<and> list_all (\<lambda>p. p \<in> set (settled st)) (executing st)"
proof (cases "suspended st")
  case (AwaitRace promise)
  let ?st1 = "st\<lparr>executing := splice_one (executing st)
                        (findIndex (\<lambda>p. p = promise) (executing st))\<rparr>"
  from assms(1) AwaitRace have st': "st' = pLimit_loop c ?st1 (remaining st)"
    by (auto simp: step_def split: if_splits)
  have "\<forall>rs. suspended (pLimit_loop c s xs) \<noteq> Returned rs" if "\<forall>rs. suspended s \<noteq> Returned rs"
    for s :: "('a, 'b) pLimit_state" and xs
    using that by (induction xs arbitrary: s) (auto simp: Let_def)
  from this[of ?st1 "remaining st"] AwaitRace assms(2) st' show ?thesis
    by simp
next
  case AwaitAll
  with assms show ?thesis by (auto simp: step_def split: if_splits)
next
  case (Returned r)
  with assms show ?thesis by simp
qed

lemma pLimit_completion_order:
  fixes fn :: "'a \<Rightarrow> 'r"
  assumes "pLimit items fn c (evs @ [Resume]) = Some rs"
  shows "rs = map (\<lambda>i. fn (items ! i)) (completions evs)
    \<and> distinct (completions evs) \<and> list_all (\<lambda>i. i < length items) (completions evs)"
proof -
  define st0 :: "('a, 'r) pLimit_state" where "st0 = pLimit_start items c"
  from assms obtain st where run: "run_schedule fn c st0 (evs @ [Resume]) = Some st"
    and ret: "suspended st = Returned rs"
    by (auto simp: pLimit_def st0_def split: option.splits suspension.splits)
  from run obtain st1 where r1: "run_schedule fn c st0 evs = Some st1"
    and s: "step fn c st1 Resume = Some st"
    by (auto simp: run_schedule_snoc split: option.splits)
  from pLimit_start_consistent[OF st0_def, of fn]
  have c0: "consistent items fn st0" and d0: "remaining st0 = drop (created st0) items"
    and s0: "settled st0 = []"
    by auto
  from run_schedule_consistent[OF c0 d0 r1] s0
  have c1: "consistent items fn st1" and set1: "settled st1 = completions evs"
    by auto
  have "\<forall>r. suspended st1 \<noteq> Returned r"
    using s by (auto simp: step_def)
  from step_Resume_Returned[OF s ret this] have "rs = results st1"
    by simp
  with c1 set1 show ?thesis
    by (auto simp: consistent_def list_all_iff)
qed

lemma pLimit_loop_below_bound:
  "int (length (executing st) + length xs) < c \<Longrightarrow>
     executing (pLimit_loop c st xs) = executing st @ [created st..<created st + length xs]
     \<and> suspended (pLimit_loop c st xs) = AwaitAll"
proof (induction xs arbitrary: st)
  case Nil
  then show ?case by simp
next
  case (Cons item xs)
  let ?st1 = "st\<lparr>created := created st + 1,
                   pending := pending st @ [(created st, item)],
                   executing := executing st @ [created st]\<rparr>"
  from Cons.prems have "\<not> int (length (executing ?st1)) \<ge> c"
    by simp
  then have eq: "pLimit_loop c st (item # xs) = pLimit_loop c ?st1 xs"
    by (simp add: Let_def)
  from Cons.prems have "int (length (executing ?st1) + length xs) < c"
    by simp
  from Cons.IH[OF this]
  have "executing (pLimit_loop c ?st1 xs)
      = (executing st @ [created st]) @ [created st + 1..<created st + 1 + length xs]"
    and "suspended (pLimit_loop c ?st1 xs) = AwaitAll"
    by simp_all
  moreover have "[created st..<created st + length (item # xs)]
      = created st # [created st + 1..<created st + 1 + length xs]"
    by (subst upt_rec) simp
  ultimately show ?case
    unfolding eq by simp
qed

lemma step_all_started:
  "all_started n st \<Longrightarrow> step fn c st ev = Some st' \<Longrightarrow> all_started n st'"
  by (cases ev; cases "suspended st")
    (auto simp: step_def all_started_def split: option.splits if_splits)

lemma run_schedule_all_started:
  "all_started n st \<Longrightarrow> run_schedule fn c st evs = Some st' \<Longrightarrow> all_started n st'"
  by (induction evs arbitrary: st) (auto split: option.splits dest: step_all_started)

lemma pLimit_below_bound_all_results:
  fixes fn :: "'a \<Rightarrow> 'r"
  assumes small: "int (length items) < c"
    and ret: "pLimit items fn c (evs @ [Resume]) = Some rs"
  shows "mset rs = mset (map fn items)"
proof -
  define st0 :: "('a, 'r) pLimit_state" where "st0 = pLimit_start items c"
  from ret obtain st where run: "run_schedule fn c st0 (evs @ [Resume]) = Some st"
    and rt: "suspended st = Returned rs"
    by (auto simp: pLimit_def st0_def split: option.splits suspension.splits)
  from run obtain st1 where r1: "run_schedule fn c st0 evs = Some st1"
    and s: "step fn c st1 Resume = Some st"
    by (auto simp: run_schedule_snoc split: option.splits)
  let ?init = "\<lparr>remaining = items, created = 0, executing = [],
        pending = [], settled = [], results = [], suspended = AwaitAll\<rparr> :: ('a, 'r) pLimit_state"
  have "int (length (executing ?init) + length items) < c"
    using small by simp
  from pLimit_loop_below_bound[OF this]
  have "all_started (length items) st0"
    by (simp add: st0_def pLimit_start_def all_started_def)
  from run_schedule_all_started[OF this r1] have ex: "executing st1 = [0..<length items]"
    by (simp add: all_started_def)
  have "\<forall>r. suspended st1 \<noteq> Returned r"
    using s by (auto simp: step_def)
  from step_Resume_Returned[OF s rt this]
  have all: "list_all (\<lambda>p. p \<in> set (settled st1)) (executing st1)"
    by simp
  from pLimit_start_consistent[OF st0_def, of fn]
  have c0: "consistent items fn st0" and d0: "remaining st0 = drop (created st0) items"
    and s0: "settled st0 = []"
    by auto
  from run_schedule_consistent[OF c0 d0 r1] s0
  have c1: "consistent items fn st1" and set1: "settled st1 = completions evs"
    by auto
  from pLimit_completion_order[OF ret]
  have rs: "rs = map (\<lambda>i. fn (items ! i)) (completions evs)"
    and d: "distinct (completions evs)"
    and b: "list_all (\<lambda>i. i < length items) (completions evs)"
    by auto
  have "set (completions evs) = set [0..<length items]"
    using all b unfolding ex set1 by (auto simp: list_all_iff)
  with d have "mset (completions evs) = mset [0..<length items]"
    using mset_set_set[of "completions evs"] by simp
  then have "image_mset (\<lambda>i. fn (items ! i)) (mset (completions evs))
      = image_mset (\<lambda>i. fn (items ! i)) (mset [0..<length items])"
    by (rule arg_cong)
  then have m: "mset (map (\<lambda>i. fn (items ! i)) (completions evs))
      = mset (map (\<lambda>i. fn (items ! i)) [0..<length items])"
    by (simp only: mset_map)
  have "map fn items = map fn (map ((!) items) [0..<length items])"
    by (simp only: map_nth)
  then have "map (\<lambda>i. fn (items ! i)) [0..<length items] = map fn items"
    by (simp add: comp_def)
  with m show ?thesis
    by (simp only: rs)
qed

lemma syncSingleSkill_fetch_throws:
  assumes "reaches_fetch env entry config dryRun forceSkills name fetcher"
    and "fetcher name (snd entry) (skillsPath config) = Inl e"
  shows "syncSingleSkill env entry config dryRun forceSkills = failed name (errorMessage_of e)"
proof -
  from assms have fl: "fetch_and_link env name (snd entry) config = Inl e"
    by (simp add: reaches_fetch_def fetch_and_link_def)
  from assms(1) have "syncSingleSkill_try env name (snd entry) config dryRun forceSkills = Inl e"
    unfolding reaches_fetch_def syncSingleSkill_try_def Let_def
    by (auto simp: fl split: sum.splits option.splits)
  with assms(1) show ?thesis
    by (simp add: syncSingleSkill_def reaches_fetch_def Let_def)
qed

lemma syncSingleSkill_fetch_succeeds:
  assumes "reaches_fetch env entry config dryRun forceSkills name fetcher"
    and "fetcher name (snd entry) (skillsPath config) = Inr ()"
  shows "syncSingleSkill env entry config dryRun forceSkills = succeeded name"
proof -
  from assms have fl: "fetch_and_link env name (snd entry) config = Inr (succeeded name)"
    by (simp add: reaches_fetch_def fetch_and_link_def Let_def split: sum.splits)
  from assms(1) have "syncSingleSkill_try env name (snd entry) config dryRun forceSkills
      = Inr (succeeded name)"
    unfolding reaches_fetch_def syncSingleSkill_try_def Let_def
    by (auto simp: fl split: sum.splits option.splits)
  with assms(1) show ?thesis
    by (simp add: syncSingleSkill_def reaches_fetch_def Let_def)
qed

lemma errorMessage_of_nonempty: "message e \<noteq> [] \<Longrightarrow> errorMessage_of e \<noteq> []"
  by (cases e) (auto simp: getDetailedMessage_def)

subsection \<open>Every run can go on until \<^verbatim>\<open>pLimit\<close> returns\<close>

lemma drain_pending:
  "distinct (map fst ps) \<Longrightarrow> pending st = ps \<Longrightarrow>
   \<exists>st'. run_schedule fn c st (map Complete (map fst ps)) = Some st'
     \<and> pending st' = [] \<and> settled st' = settled st @ map fst ps
     \<and> executing st' = executing st \<and> suspended st' = suspended st
     \<and> remaining st' = remaining st \<and> created st' = created st"
proof (induction ps arbitrary: st)
  case Nil
  then show ?case by simp
next
  case (Cons p ps)
  obtain i x where p: "p = (i, x)" by (cases p)
  let ?st1 = "st\<lparr>results := results st @ [fn x],
                  pending := filter (\<lambda>(j, x). j \<noteq> i) (pending st),
                  settled := settled st @ [i]\<rparr>"
  have s: "step fn c st (Complete i) = Some ?st1"
    using Cons.prems(2) p by (simp add: step_def)
  have "filter (\<lambda>(j, x). j \<noteq> i) ps = ps"
    using Cons.prems(1) p by (force simp: filter_id_conv)
  then have p1: "pending ?st1 = ps"
    using Cons.prems(2) p by simp
  from Cons.prems(1) have "distinct (map fst ps)" by simp
  from Cons.IH[OF this p1] obtain st' where
    "run_schedule fn c ?st1 (map Complete (map fst ps)) = Some st'"
    "pending st' = []" "settled st' = settled ?st1 @ map fst ps"
    "executing st' = executing ?st1" "suspended st' = suspended ?st1"
    "remaining st' = remaining ?st1" "created st' = created ?st1"
    by blast
  then show ?case
    using s p by auto
qed

lemma set_splice_one: "set (splice_one xs i) \<subseteq> set xs"
  by (auto simp: splice_one_def Let_def dest: in_set_takeD in_set_dropD)

lemma pLimit_loop_ready:
  assumes "distinct (map fst (pending st))"
    and "list_all (\<lambda>i. i < created st) (map fst (pending st))"
    and "list_all (\<lambda>p. p < created st) (executing st)"
    and "list_all (\<lambda>i. i \<in> set (settled st) \<or> i \<in> set (map fst (pending st))) [0..<created st]"
  shows "awaited_ready (pLimit_loop c st xs)
    \<and> steps_left (pLimit_loop c st xs) \<le> length xs
    \<and> (\<forall>rs. suspended (pLimit_loop c st xs) \<noteq> Returned rs)"
  using assms
proof (induction xs arbitrary: st)
  case Nil
  then show ?case
    by (simp add: awaited_ready_def steps_left_def)
next
  case (Cons item xs)
  let ?st1 = "st\<lparr>created := created st + 1,
                   pending := pending st @ [(created st, item)],
                   executing := executing st @ [created st]\<rparr>"
  have fresh: "created st \<notin> set (map fst (pending st))"
    using Cons.prems(2) by (auto simp: list_all_iff)
  have a1: "distinct (map fst (pending ?st1))"
    using Cons.prems(1) fresh by simp
  have a2: "list_all (\<lambda>i. i < created ?st1) (map fst (pending ?st1))"
    using Cons.prems(2) by (auto simp: list_all_iff)
  have a3: "list_all (\<lambda>p. p < created ?st1) (executing ?st1)"
    using Cons.prems(3) by (auto simp: list_all_iff)
  have a4: "list_all (\<lambda>i. i \<in> set (settled ?st1) \<or> i \<in> set (map fst (pending ?st1)))
      [0..<created ?st1]"
    using Cons.prems(4) by (auto simp: list_all_iff)
  show ?case
  proof (cases "int (length (executing ?st1)) \<ge> c")
    case True
    then have eq: "pLimit_loop c st (item # xs)
        = ?st1\<lparr>remaining := xs, suspended := AwaitRace (created st)\<rparr>"
      by (simp add: Let_def)
    show ?thesis
      unfolding eq using a1 a2 a3 a4
      by (simp add: awaited_ready_def steps_left_def)
  next
    case False
    then have eq: "pLimit_loop c st (item # xs) = pLimit_loop c ?st1 xs"
      by (simp add: Let_def)
    from Cons.IH[OF a1 a2 a3 a4] show ?thesis
      unfolding eq by simp
  qed
qed

lemma run_schedule_append:
  "run_schedule fn c st (xs @ ys) =
     (case run_schedule fn c st xs of None \<Rightarrow> None | Some st1 \<Rightarrow> run_schedule fn c st1 ys)"
  by (induction xs arbitrary: st) (auto split: option.splits)

lemma can_return:
  "awaited_ready st \<Longrightarrow> \<forall>rs. suspended st \<noteq> Returned rs \<Longrightarrow>
   \<exists>evs st' rs. run_schedule fn c st (evs @ [Resume]) = Some st' \<and> suspended st' = Returned rs"
proof (induction "steps_left st" arbitrary: st rule: less_induct)
  case less
  from less.prems(1) have d: "distinct (map fst (pending st))"
    by (simp add: awaited_ready_def)
  define ds where "ds = map Complete (map fst (pending st))"
  from drain_pending[OF d refl, of fn c] obtain st1 where
    run1: "run_schedule fn c st ds = Some st1"
    and p1: "pending st1 = []" and s1: "settled st1 = settled st @ map fst (pending st)"
    and e1: "executing st1 = executing st" and su1: "suspended st1 = suspended st"
    and r1: "remaining st1 = remaining st" and c1: "created st1 = created st"
    unfolding ds_def by blast
  have all_settled: "\<forall>i < created st. i \<in> set (settled st1)"
    using less.prems(1) by (auto simp: awaited_ready_def list_all_iff s1)
  have ex_settled: "list_all (\<lambda>p. p \<in> set (settled st1)) (executing st1)"
    using less.prems(1) all_settled by (auto simp: awaited_ready_def list_all_iff e1)
  show ?case
  proof (cases "suspended st")
    case AwaitAll
    have "step fn c st1 Resume = Some (st1\<lparr>suspended := Returned (results st1)\<rparr>)"
      using ex_settled AwaitAll su1 by (simp add: step_def)
    then have "run_schedule fn c st (ds @ [Resume])
        = Some (st1\<lparr>suspended := Returned (results st1)\<rparr>)"
      by (simp add: run_schedule_append run1)
    moreover have "suspended (st1\<lparr>suspended := Returned (results st1)\<rparr>)
        = Returned (results st1)"
      by simp
    ultimately show ?thesis
      by blast
  next
    case (AwaitRace p)
    let ?st2 = "st1\<lparr>executing := splice_one (executing st1)
                        (findIndex (\<lambda>q. q = p) (executing st1))\<rparr>"
    let ?st3 = "pLimit_loop c ?st2 (remaining st1)"
    have "p \<in> set (executing st1)"
      using less.prems(1) AwaitRace by (simp add: awaited_ready_def e1)
    with ex_settled have "list_ex (\<lambda>p. p \<in> set (settled st1)) (executing st1)"
      by (auto simp: list_all_iff list_ex_iff)
    then have s: "step fn c st1 Resume = Some ?st3"
      using AwaitRace su1 by (simp add: step_def)
    have b1: "distinct (map fst (pending ?st2))"
      and b2: "list_all (\<lambda>i. i < created ?st2) (map fst (pending ?st2))"
      by (simp_all add: p1)
    have b3: "list_all (\<lambda>p. p < created ?st2) (executing ?st2)"
      using less.prems(1) set_splice_one[of "executing st1"]
      by (auto simp: awaited_ready_def list_all_iff e1 c1)
    have b4: "list_all (\<lambda>i. i \<in> set (settled ?st2) \<or> i \<in> set (map fst (pending ?st2)))
        [0..<created ?st2]"
      using all_settled by (auto simp: list_all_iff c1)
    from pLimit_loop_ready[OF b1 b2 b3 b4, of c "remaining st1"]
    have rd: "awaited_ready ?st3" and sl: "steps_left ?st3 \<le> length (remaining st1)"
      and nr: "\<forall>rs. suspended ?st3 \<noteq> Returned rs"
      by auto
    have "steps_left ?st3 < steps_left st"
      using sl AwaitRace by (simp add: steps_left_def r1)
    from less.hyps[OF this rd nr] obtain evs st' rs where
      "run_schedule fn c ?st3 (evs @ [Resume]) = Some st'" "suspended st' = Returned rs"
      by blast
    then have "run_schedule fn c st ((ds @ Resume # evs) @ [Resume]) = Some st'"
      by (simp add: run_schedule_append run1 s)
    with \<open>suspended st' = Returned rs\<close> show ?thesis
      by blast
  next
    case (Returned rs)
    with less.prems(2) show ?thesis by simp
  qed
qed

lemma pLimit_can_return:
  fixes fn :: "'a \<Rightarrow> 'r"
  shows "\<exists>evs rs. pLimit items fn c (evs @ [Resume]) = Some rs"
proof -
  let ?init = "\<lparr>remaining = items, created = 0, executing = [],
        pending = [], settled = [], results = [], suspended = AwaitAll\<rparr> :: ('a, 'r) pLimit_state"
  have "awaited_ready (pLimit_loop c ?init items)
      \<and> steps_left (pLimit_loop c ?init items) \<le> length items
      \<and> (\<forall>rs. suspended (pLimit_loop c ?init items) \<noteq> Returned rs)"
    by (rule pLimit_loop_ready) simp_all
  then have "awaited_ready (pLimit_start items c :: ('a, 'r) pLimit_state)"
    and "\<forall>rs. suspended (pLimit_start items c :: ('a, 'r) pLimit_state) \<noteq> Returned rs"
    by (simp_all add: pLimit_start_def)
  from can_return[OF this, of fn c] obtain evs st' rs where
    "run_schedule fn c (pLimit_start items c) (evs @ [Resume]) = Some st'"
    "suspended st' = Returned rs"
    by blast
  then have "pLimit items fn c (evs @ [Resume]) = Some rs"
    by (simp add: pLimit_def)
  then show ?thesis by blast
qed

text \<open>
  The run that lets every pending task complete before each resumption returns the result
  of every item.
\<close>

lemma pLimit_loop_AwaitAll:
  "suspended (pLimit_loop c st xs) = AwaitAll \<Longrightarrow> remaining (pLimit_loop c st xs) = []"
  by (induction xs arbitrary: st) (auto simp: Let_def split: if_splits)

lemma can_return_all:
  "awaited_ready st \<Longrightarrow> \<forall>rs. suspended st \<noteq> Returned rs \<Longrightarrow>
   (suspended st = AwaitAll \<longrightarrow> remaining st = []) \<Longrightarrow>
   \<exists>evs st' rs. run_schedule fn c st (evs @ [Resume]) = Some st' \<and> suspended st' = Returned rs
     \<and> remaining st' = [] \<and> (\<forall>i < created st'. i \<in> set (settled st'))"
proof (induction "steps_left st" arbitrary: st rule: less_induct)
  case less
  from less.prems(1) have d: "distinct (map fst (pending st))"
    by (simp add: awaited_ready_def)
  define ds where "ds = map Complete (map fst (pending st))"
  from drain_pending[OF d refl, of fn c] obtain st1 where
    run1: "run_schedule fn c st ds = Some st1"
    and p1: "pending st1 = []" and s1: "settled st1 = settled st @ map fst (pending st)"
    and e1: "executing st1 = executing st" and su1: "suspended st1 = suspended st"
    and r1: "remaining st1 = remaining st" and c1: "created st1 = created st"
    unfolding ds_def by blast
  have all_settled: "\<forall>i < created st. i \<in> set (settled st1)"
    using less.prems(1) by (auto simp: awaited_ready_def list_all_iff s1)
  have ex_settled: "list_all (\<lambda>p. p \<in> set (settled st1)) (executing st1)"
    using less.prems(1) all_settled by (auto simp: awaited_ready_def list_all_iff e1)
  show ?case
  proof (cases "suspended st")
    case AwaitAll
    let ?st' = "st1\<lparr>suspended := Returned (results st1)\<rparr>"
    have "step fn c st1 Resume = Some ?st'"
      using ex_settled AwaitAll su1 by (simp add: step_def)
    then have "run_schedule fn c st (ds @ [Resume]) = Some ?st'"
      by (simp add: run_schedule_append run1)
    moreover have "suspended ?st' = Returned (results st1)"
      by simp
    moreover have "remaining ?st' = []"
      using less.prems(3) AwaitAll r1 by simp
    moreover have "\<forall>i < created ?st'. i \<in> set (settled ?st')"
      using all_settled c1 by simp
    ultimately show ?thesis
      by blast
  next
    case (AwaitRace p)
    let ?st2 = "st1\<lparr>executing := splice_one (executing st1)
                        (findIndex (\<lambda>q. q = p) (executing st1))\<rparr>"
    let ?st3 = "pLimit_loop c ?st2 (remaining st1)"
    have "p \<in> set (executing st1)"
      using less.prems(1) AwaitRace by (simp add: awaited_ready_def e1)
    with ex_settled have "list_ex (\<lambda>p. p \<in> set (settled st1)) (executing st1)"
      by (auto simp: list_all_iff list_ex_iff)
    then have s: "step fn c st1 Resume = Some ?st3"
      using AwaitRace su1 by (simp add: step_def)
    have b1: "distinct (map fst (pending ?st2))"
      and b2: "list_all (\<lambda>i. i < created ?st2) (map fst (pending ?st2))"
      by (simp_all add: p1)
    have b3: "list_all (\<lambda>p. p < created ?st2) (executing ?st2)"
      using less.prems(1) set_splice_one[of "executing st1"]
      by (auto simp: awaited_ready_def list_all_iff e1 c1)
    have b4: "list_all (\<lambda>i. i \<in> set (settled ?st2) \<or> i \<in> set (map fst (pending ?st2)))
        [0..<created ?st2]"
      using all_settled by (auto simp: list_all_iff c1)
    from pLimit_loop_ready[OF b1 b2 b3 b4, of c "remaining st1"]
    have rd: "awaited_ready ?st3" and sl: "steps_left ?st3 \<le> length (remaining st1)"
      and nr: "\<forall>rs. suspended ?st3 \<noteq> Returned rs"
      by auto
    have aa: "suspended ?st3 = AwaitAll \<longrightarrow> remaining ?st3 = []"
      using pLimit_loop_AwaitAll by blast
    have "steps_left ?st3 < steps_left st"
      using sl AwaitRace by (simp add: steps_left_def r1)
    from less.hyps[OF this rd nr aa] obtain evs st' rs where
      "run_schedule fn c ?st3 (evs @ [Resume]) = Some st'" "suspended st' = Returned rs"
      "remaining st' = []" "\<forall>i < created st'. i \<in> set (settled st')"
      by blast
    moreover from this(1) have "run_schedule fn c st ((ds @ Resume # evs) @ [Resume]) = Some st'"
      by (simp add: run_schedule_append run1 s)
    ultimately show ?thesis
      by blast
  next
    case (Returned rs)
    with less.prems(2) show ?thesis by simp
  qed
qed

lemma pLimit_can_return_all:
  fixes fn :: "'a \<Rightarrow> 'r"
  shows "\<exists>evs rs. pLimit items fn c (evs @ [Resume]) = Some rs \<and> mset rs = mset (map fn items)"
proof -
  define st0 :: "('a, 'r) pLimit_state" where "st0 = pLimit_start items c"
  let ?init = "\<lparr>remaining = items, created = 0, executing = [],
        pending = [], settled = [], results = [], suspended = AwaitAll\<rparr> :: ('a, 'r) pLimit_state"
  have "awaited_ready (pLimit_loop c ?init items)
      \<and> steps_left (pLimit_loop c ?init items) \<le> length items
      \<and> (\<forall>rs. suspended (pLimit_loop c ?init items) \<noteq> Returned rs)"
    by (rule pLimit_loop_ready) simp_all
  then have rd: "awaited_ready st0" and nr: "\<forall>rs. suspended st0 \<noteq> Returned rs"
    by (simp_all add: st0_def pLimit_start_def)
  have aa: "suspended st0 = AwaitAll \<longrightarrow> remaining st0 = []"
    unfolding st0_def pLimit_start_def using pLimit_loop_AwaitAll by blast
  from can_return_all[OF rd nr aa, of fn c] obtain evs st' rs where
    run: "run_schedule fn c st0 (evs @ [Resume]) = Some st'"
    and ret: "suspended st' = Returned rs"
    and rem: "remaining st' = []" and all: "\<forall>i < created st'. i \<in> set (settled st')"
    by blast
  from run ret have p: "pLimit items fn c (evs @ [Resume]) = Some rs"
    by (simp add: pLimit_def st0_def)
  from pLimit_start_consistent[OF st0_def, of fn]
  have c0: "consistent items fn st0" and d0: "remaining st0 = drop (created st0) items"
    and s0: "settled st0 = []"
    by auto
  from run_schedule_consistent[OF c0 d0 run] s0
  have c1: "consistent items fn st'" and d1: "remaining st' = drop (created st') items"
    and set1: "settled st' = completions (evs @ [Resume])"
    by auto
  have set2: "settled st' = completions evs"
    unfolding set1 by (simp add: completions_append)
  from c1 have "created st' \<le> length items"
    by (simp add: consistent_def)
  moreover from rem d1 have "length items \<le> created st'"
    by simp
  ultimately have cr: "created st' = length items"
    by simp
  from pLimit_completion_order[OF p]
  have rs: "rs = map (\<lambda>i. fn (items ! i)) (completions evs)"
    and d: "distinct (completions evs)"
    and b: "list_all (\<lambda>i. i < length items) (completions evs)"
    by auto
  have "set (completions evs) = set [0..<length items]"
    using all b unfolding cr set2 by (auto simp: list_all_iff)
  with d have "mset (completions evs) = mset [0..<length items]"
    using mset_set_set[of "completions evs"] by simp
  then have "image_mset (\<lambda>i. fn (items ! i)) (mset (completions evs))
      = image_mset (\<lambda>i. fn (items ! i)) (mset [0..<length items])"
    by (rule arg_cong)
  then have m: "mset (map (\<lambda>i. fn (items ! i)) (completions evs))
      = mset (map (\<lambda>i. fn (items ! i)) [0..<length items])"
    by (simp only: mset_map)
  have "map fn items = map fn (map ((!) items) [0..<length items])"
    by (simp only: map_nth)
  then have "map (\<lambda>i. fn (items ! i)) [0..<length items] = map fn items"
    by (simp add: comp_def)
  with m have "mset rs = mset (map fn items)"
    by (simp only: rs)
  with p show ?thesis by blast
qed

text \<open>
  C1, as amended. \<^verbatim>\<open>syncSkills\<close> can return under some schedule, and whenever it
  returns, its list is in the order in which the skill syncs completed: the \<open>k\<close>-th entry
  is the result of the \<open>k\<close>-th sync to complete, and no skill is in it twice. It is in
  configuration order when the syncs complete in configuration order.
\<close>

theorem syncSkills_completion_order:
  "(\<exists>evs rs. syncSkills env config dryRun forceSkills (evs @ [Resume]) = Some rs)
   \<and> (\<forall>evs rs. syncSkills env config dryRun forceSkills (evs @ [Resume]) = Some rs \<longrightarrow>
          rs = map (\<lambda>i. syncSingleSkill env (skills config ! i) config dryRun forceSkills)
                 (completions evs)
        \<and> distinct (completions evs)
        \<and> list_all (\<lambda>i. i < length (skills config)) (completions evs)
        \<and> (completions evs = [0..<length (skills config)] \<longrightarrow>
             rs = map (\<lambda>entry. syncSingleSkill env entry config dryRun forceSkills)
                    (skills config)))"
proof (intro conjI allI impI)
  show "\<exists>evs rs. syncSkills env config dryRun forceSkills (evs @ [Resume]) = Some rs"
    unfolding syncSkills_def by (rule pLimit_can_return)
next
  fix evs rs
  let ?fn = "\<lambda>entry. syncSingleSkill env entry config dryRun forceSkills"
  assume "syncSkills env config dryRun forceSkills (evs @ [Resume]) = Some rs"
  then have "pLimit (skills config) ?fn MAX_CONCURRENT_SYNCS (evs @ [Resume]) = Some rs"
    by (simp add: syncSkills_def)
  from pLimit_completion_order[OF this]
  show rs: "rs = map (\<lambda>i. ?fn (skills config ! i)) (completions evs)"
    and "distinct (completions evs)"
    and "list_all (\<lambda>i. i < length (skills config)) (completions evs)"
    by auto
  have "map ?fn (skills config) = map ?fn (map ((!) (skills config)) [0..<length (skills config)])"
    by (simp only: map_nth)
  then have m: "map (\<lambda>i. ?fn (skills config ! i)) [0..<length (skills config)]
      = map ?fn (skills config)"
    by (simp add: comp_def)
  assume "completions evs = [0..<length (skills config)]"
  with rs m show "rs = map ?fn (skills config)"
    by simp
qed

theorem syncSkills_completion_order_witness:
  "syncSkills (example_env (fetch_failing_for_b network_error)) three_skills False None
       ([Complete 2, Complete 0, Complete 1] @ [Resume])
     = Some [succeeded ''c'', succeeded ''a'', failed ''b'' ''Failed to fetch gist (skillName: b)'']
   \<and> completions [Complete 2, Complete 0, Complete 1] = [2, 0, 1]
   \<and> [succeeded ''c'', succeeded ''a'', failed ''b'' ''Failed to fetch gist (skillName: b)'']
     = map (\<lambda>i. syncSingleSkill (example_env (fetch_failing_for_b network_error))
                  (skills three_skills ! i) three_skills False None) [2, 0, 1]"
proof -
  define env where "env = example_env (fetch_failing_for_b network_error)"
  define rs where
    "rs = [succeeded ''c'', succeeded ''a'', failed ''b'' ''Failed to fetch gist (skillName: b)'']"
  define evs where "evs = [Complete 2, Complete 0, Complete 1]"
  have r: "syncSkills env three_skills False None (evs @ [Resume]) = Some rs"
    unfolding env_def rs_def evs_def by code_simp
  have c: "completions evs = [2, 0, 1]"
    unfolding evs_def by simp
  from syncSkills_completion_order[of env three_skills False None] r
  have "rs = map (\<lambda>i. syncSingleSkill env (skills three_skills ! i) three_skills False None)
               (completions evs)"
    by blast
  with r c show ?thesis
    unfolding c env_def rs_def evs_def by simp
qed

text \<open>
  C1 as stated fails: the third skill completes first and the second last, and the list
  returned is in that order, not in the order \<open>a\<close>, \<open>b\<close>, \<open>c\<close> of the configuration.
\<close>

theorem syncSkills_order_counterexample:
  "syncSkills (example_env (fetch_failing_for_b network_error)) three_skills False None
       [Complete 2, Complete 0, Complete 1, Resume]
     = Some [succeeded ''c'', succeeded ''a'', failed ''b'' ''Failed to fetch gist (skillName: b)'']
   \<and> map fst (skills three_skills) = [''a'', ''b'', ''c'']
   \<and> map (\<lambda>entry. syncSingleSkill (example_env (fetch_failing_for_b network_error)) entry
                three_skills False None) (skills three_skills)
     = [succeeded ''a'', failed ''b'' ''Failed to fetch gist (skillName: b)'', succeeded ''c'']"
  by code_simp

text \<open>
  C9 fails on the code. Five items at the bound five: when the first task completes,
  \<^verbatim>\<open>pLimit\<close> resumes from the race and removes the promise of the fifth item from
  \<open>executing\<close>; it then waits for the first four only and returns four results while the
  fifth task is still running.
\<close>

theorem pLimit_returns_before_fifth_result:
  "pLimit [1, 2, 3, 4, 5] times_ten 5
       [Complete 0, Resume, Complete 1, Complete 2, Complete 3, Resume]
     = Some [10, 20, 30, 40]"
  by code_simp

text \<open>
  C6 fails on the code. In a batch of five skills in which the fetch of \<open>b\<close> throws, when
  the sync of \<open>a\<close> completes \<^verbatim>\<open>pLimit\<close> resumes from the race and stops waiting for
  the sync of \<open>e\<close>; after the syncs of \<open>b\<close>, \<open>c\<close> and \<open>d\<close> it returns. The list holds
  four results: \<open>b\<close> is reported as failed, and \<open>e\<close>, whose sync succeeds, is not
  reported at all.
\<close>

theorem syncSkills_returns_before_fifth_skill:
  "syncSkills (example_env (fetch_failing_for_b network_error)) five_skills False None
       [Complete 0, Resume, Complete 1, Complete 2, Complete 3, Resume]
     = Some [succeeded ''a'', failed ''b'' ''Failed to fetch gist (skillName: b)'',
             succeeded ''c'', succeeded ''d'']
   \<and> map fst (skills five_skills) = [''a'', ''b'', ''c'', ''d'', ''e'']
   \<and> syncSingleSkill (example_env (fetch_failing_for_b network_error)) (''e'', gist_config)
         five_skills False None
     = succeeded ''e''"
  by code_simp

subsection \<open>What holds of a batch\<close>

text \<open>
  Whatever a fetch throws stays inside the sync of its skill. \<^verbatim>\<open>syncSkills\<close> can return
  with every skill of the configuration reported exactly once, and does so whenever it
  returns for a batch of fewer than five skills; every entry of a list it returns is the
  result of the sync of a skill of the configuration. A skill whose fetch throws is
  reported with \<open>success = False\<close> and the message of what was thrown, which is not empty
  when the thrown message is not empty; a skill whose fetch returns is reported with
  \<open>success = True\<close>.
\<close>

theorem syncSkills_batch_isolation:
  "(\<exists>evs rs. syncSkills env config dryRun forceSkills (evs @ [Resume]) = Some rs
        \<and> mset rs = mset (map (\<lambda>entry. syncSingleSkill env entry config dryRun forceSkills)
                              (skills config)))
   \<and> (\<forall>evs rs. int (length (skills config)) < MAX_CONCURRENT_SYNCS
          \<and> syncSkills env config dryRun forceSkills (evs @ [Resume]) = Some rs
        \<longrightarrow> mset rs = mset (map (\<lambda>entry. syncSingleSkill env entry config dryRun forceSkills)
                                (skills config)))
   \<and> (\<forall>evs rs. syncSkills env config dryRun forceSkills (evs @ [Resume]) = Some rs
        \<longrightarrow> set rs \<subseteq> (\<lambda>entry. syncSingleSkill env entry config dryRun forceSkills)
                         ` set (skills config))
   \<and> (\<forall>entry name fetcher e.
          reaches_fetch env entry config dryRun forceSkills name fetcher
          \<and> fetcher name (snd entry) (skillsPath config) = Inl e
        \<longrightarrow> syncSingleSkill env entry config dryRun forceSkills
              = \<lparr>skillName = name, success = False, error = Some (errorMessage_of e),
                 skipped = None, reason = None\<rparr>
            \<and> (message e \<noteq> [] \<longrightarrow> errorMessage_of e \<noteq> []))
   \<and> (\<forall>entry name fetcher.
          reaches_fetch env entry config dryRun forceSkills name fetcher
          \<and> fetcher name (snd entry) (skillsPath config) = Inr ()
        \<longrightarrow> syncSingleSkill env entry config dryRun forceSkills
              = \<lparr>skillName = name, success = True, error = None, skipped = None,
                 reason = None\<rparr>)"
proof (intro conjI allI impI)
  show "\<exists>evs rs. syncSkills env config dryRun forceSkills (evs @ [Resume]) = Some rs
        \<and> mset rs = mset (map (\<lambda>entry. syncSingleSkill env entry config dryRun forceSkills)
                              (skills config))"
    unfolding syncSkills_def by (rule pLimit_can_return_all)
next
  fix evs rs
  assume "int (length (skills config)) < MAX_CONCURRENT_SYNCS
      \<and> syncSkills env config dryRun forceSkills (evs @ [Resume]) = Some rs"
  then have "int (length (skills config)) < MAX_CONCURRENT_SYNCS"
    and "pLimit (skills config) (\<lambda>entry. syncSingleSkill env entry config dryRun forceSkills)
      MAX_CONCURRENT_SYNCS (evs @ [Resume]) = Some rs"
    by (simp_all add: syncSkills_def)
  then show "mset rs = mset (map (\<lambda>entry. syncSingleSkill env entry config dryRun forceSkills)
      (skills config))"
    by (rule pLimit_below_bound_all_results)
next
  fix evs rs
  assume "syncSkills env config dryRun forceSkills (evs @ [Resume]) = Some rs"
  then have "pLimit (skills config) (\<lambda>entry. syncSingleSkill env entry config dryRun forceSkills)
      MAX_CONCURRENT_SYNCS (evs @ [Resume]) = Some rs"
    by (simp add: syncSkills_def)
  from pLimit_completion_order[OF this]
  show "set rs \<subseteq> (\<lambda>entry. syncSingleSkill env entry config dryRun forceSkills)
      ` set (skills config)"
    by (auto simp: list_all_iff)
next
  fix entry name fetcher e
  assume a: "reaches_fetch env entry config dryRun forceSkills name fetcher
      \<and> fetcher name (snd entry) (skillsPath config) = Inl e"
  then show "syncSingleSkill env entry config dryRun forceSkills
      = \<lparr>skillName = name, success = False, error = Some (errorMessage_of e),
         skipped = None, reason = None\<rparr>"
    using syncSingleSkill_fetch_throws[of env entry config dryRun forceSkills name fetcher e]
    by (simp add: failed_def)
  assume "message e \<noteq> []"
  then show "errorMessage_of e \<noteq> []"
    by (rule errorMessage_of_nonempty)
next
  fix entry name fetcher
  assume "reaches_fetch env entry config dryRun forceSkills name fetcher
      \<and> fetcher name (snd entry) (skillsPath config) = Inr ()"
  then show "syncSingleSkill env entry config dryRun forceSkills
      = \<lparr>skillName = name, success = True, error = None, skipped = None, reason = None\<rparr>"
    using syncSingleSkill_fetch_succeeds[of env entry config dryRun forceSkills name fetcher]
    by (simp add: succeeded_def)
qed

theorem syncSkills_batch_isolation_example:
  "int (length (skills three_skills)) < MAX_CONCURRENT_SYNCS
   \<and> syncSkills (example_env (fetch_failing_for_b network_error)) three_skills False None
       ([Complete 2, Complete 0, Complete 1] @ [Resume])
     = Some [succeeded ''c'', succeeded ''a'', failed ''b'' ''Failed to fetch gist (skillName: b)'']
   \<and> mset [succeeded ''c'', succeeded ''a'', failed ''b'' ''Failed to fetch gist (skillName: b)'']
     = mset (map (\<lambda>entry. syncSingleSkill (example_env (fetch_failing_for_b network_error)) entry
                    three_skills False None) (skills three_skills))
   \<and> reaches_fetch (example_env (fetch_failing_for_b network_error)) (''b'', gist_config)
        three_skills False None ''b'' (fetch_failing_for_b network_error)
   \<and> fetch_failing_for_b network_error ''b'' gist_config (skillsPath three_skills)
        = Inl network_error
   \<and> message network_error \<noteq> []
   \<and> syncSingleSkill (example_env (fetch_failing_for_b network_error)) (''b'', gist_config)
        three_skills False None
     = \<lparr>skillName = ''b'', success = False, error = Some (errorMessage_of network_error),
        skipped = None, reason = None\<rparr>
   \<and> errorMessage_of network_error \<noteq> []
   \<and> reaches_fetch (example_env (fetch_failing_for_b network_error)) (''a'', gist_config)
        three_skills False None ''a'' (fetch_failing_for_b network_error)
   \<and> fetch_failing_for_b network_error ''a'' gist_config (skillsPath three_skills) = Inr ()
   \<and> syncSingleSkill (example_env (fetch_failing_for_b network_error)) (''a'', gist_config)
        three_skills False None
     = \<lparr>skillName = ''a'', success = True, error = None, skipped = None, reason = None\<rparr>"
proof -
  define fetcher where "fetcher = fetch_failing_for_b network_error"
  define env where "env = example_env fetcher"
  define rs where
    "rs = [succeeded ''c'', succeeded ''a'', failed ''b'' ''Failed to fetch gist (skillName: b)'']"
  define evs where "evs = [Complete 2, Complete 0, Complete 1]"
  define a where "a = (''a'', gist_config)"
  define b where "b = (''b'', gist_config)"
  define na where "na = ''a''"
  define nb where "nb = ''b''"
  have small: "int (length (skills three_skills)) < MAX_CONCURRENT_SYNCS"
    by code_simp
  have r: "syncSkills env three_skills False None (evs @ [Resume]) = Some rs"
    unfolding env_def fetcher_def rs_def evs_def by code_simp
  have gf: "getFetcher (fetchers env) (type gist_config) = Inr fetcher"
    by (simp add: env_def example_env_def getFetcher_def gist_config_def)
  have rb: "reaches_fetch env b three_skills False None nb fetcher"
    unfolding reaches_fetch_def b_def nb_def using gf
    by (simp add: env_def example_env_def)
  have ra: "reaches_fetch env a three_skills False None na fetcher"
    unfolding reaches_fetch_def a_def na_def using gf
    by (simp add: env_def example_env_def)
  have fb: "fetcher nb (snd b) (skillsPath three_skills) = Inl network_error"
    by (simp add: fetcher_def fetch_failing_for_b_def nb_def)
  have fa: "fetcher na (snd a) (skillsPath three_skills) = Inr ()"
    by (simp add: fetcher_def fetch_failing_for_b_def na_def)
  have m: "message network_error \<noteq> []"
    by (simp add: network_error_def)
  note inst = syncSkills_batch_isolation[of env three_skills False None]
  from inst small r have all: "mset rs
      = mset (map (\<lambda>entry. syncSingleSkill env entry three_skills False None) (skills three_skills))"
    by blast
  from inst rb fb have sb: "syncSingleSkill env b three_skills False None
      = \<lparr>skillName = nb, success = False, error = Some (errorMessage_of network_error),
         skipped = None, reason = None\<rparr>"
    by blast
  from inst rb fb m have nonempty: "errorMessage_of network_error \<noteq> []"
    by blast
  from inst ra fa have sa: "syncSingleSkill env a three_skills False None
      = \<lparr>skillName = na, success = True, error = None, skipped = None, reason = None\<rparr>"
    by blast
  from fb have fb': "fetcher nb gist_config (skillsPath three_skills) = Inl network_error"
    by (simp add: b_def)
  from fa have fa': "fetcher na gist_config (skillsPath three_skills) = Inr ()"
    by (simp add: a_def)
  from small r all rb fb' m sb nonempty ra fa' sa
  have "int (length (skills three_skills)) < MAX_CONCURRENT_SYNCS
   \<and> syncSkills env three_skills False None (evs @ [Resume]) = Some rs
   \<and> mset rs = mset (map (\<lambda>entry. syncSingleSkill env entry three_skills False None)
                       (skills three_skills))
   \<and> reaches_fetch env b three_skills False None nb fetcher
   \<and> fetcher nb gist_config (skillsPath three_skills) = Inl network_error
   \<and> message network_error \<noteq> []
   \<and> syncSingleSkill env b three_skills False None
     = \<lparr>skillName = nb, success = False, error = Some (errorMessage_of network_error),
        skipped = None, reason = None\<rparr>
   \<and> errorMessage_of network_error \<noteq> []
   \<and> reaches_fetch env a three_skills False None na fetcher
   \<and> fetcher na gist_config (skillsPath three_skills) = Inr ()
   \<and> syncSingleSkill env a three_skills False None
     = \<lparr>skillName = na, success = True, error = None, skipped = None, reason = None\<rparr>"
    by (intro conjI)
  then show ?thesis
    unfolding env_def fetcher_def rs_def evs_def a_def b_def na_def nb_def .
qed

end
